theory Spec2Isabelle
  imports Main
begin

section \<open>Decoded JSON values and the Python operations the scripts apply to them\<close>

text \<open>
  \<^verbatim>\<open>optimize_audio.py\<close> works on what \<^verbatim>\<open>json.load\<close> and \<^verbatim>\<open>resp.json()\<close> return:
  \<^verbatim>\<open>None\<close>, booleans, integers, strings, lists and dicts with string keys. A dict is an
  association list in insertion order (Python dicts keep it, and \<^verbatim>\<open>json.dump\<close> writes
  it). JSON numbers are Python's unbounded integers here; floating-point numbers are not
  represented.
\<close>

datatype json =
    JNull
  | JBool bool
  | JInt int
  | JStr string
  | JArr "json list"
  | JObj "(string \<times> json) list"

text \<open>The exceptions that the modelled statements can raise.\<close>

datatype py_error =
    AttributeError
  | TypeError
  | KeyError
  | IndexError
  | ValueError
  | JSONDecodeError
  | RequestException

text \<open>
  How a run dies: \<^verbatim>\<open>sys.exit(code)\<close>, or an exception that nothing catches (the
  scripts have no \<^verbatim>\<open>try\<close>).
\<close>

datatype fatal = SysExit int | Raised py_error

text \<open>Truth value testing: \<^verbatim>\<open>if x\<close>, \<^verbatim>\<open>not x\<close>.\<close>

fun truthy :: "json \<Rightarrow> bool" where
  "truthy JNull = False"
| "truthy (JBool b) = b"
| "truthy (JInt i) = (i \<noteq> 0)"
| "truthy (JStr s) = (s \<noteq> [])"
| "truthy (JArr xs) = (xs \<noteq> [])"
| "truthy (JObj kvs) = (kvs \<noteq> [])"

text \<open>\<^verbatim>\<open>d.get(k, default)\<close> on a dict.\<close>

definition dict_get :: "(string \<times> json) list \<Rightarrow> string \<Rightarrow> json \<Rightarrow> json" where
  "dict_get d k dflt = (case map_of d k of None \<Rightarrow> dflt | Some v \<Rightarrow> v)"

text \<open>
  \<^verbatim>\<open>x.get(k, default)\<close> on any decoded value: only a dict has the method, every other
  value raises \<^verbatim>\<open>AttributeError\<close>.
\<close>

fun py_get :: "json \<Rightarrow> string \<Rightarrow> json \<Rightarrow> py_error + json" where
  "py_get (JObj d) k dflt = Inr (dict_get d k dflt)"
| "py_get _ k dflt = Inl AttributeError"

text \<open>
  \<^verbatim>\<open>d[k] = v\<close> on a dict: an existing key keeps its place and gets the new value, a new
  key goes to the end.
\<close>

primrec dict_set :: "(string \<times> 'v) list \<Rightarrow> string \<Rightarrow> 'v \<Rightarrow> (string \<times> 'v) list" where
  "dict_set [] k v = [(k, v)]"
| "dict_set (p # ps) k v = (if fst p = k then (k, v) # ps else p # dict_set ps k v)"

text \<open>\<^verbatim>\<open>d.setdefault(k, v)\<close>, for its effect on the dict.\<close>

definition dict_setdefault :: "(string \<times> json) list \<Rightarrow> string \<Rightarrow> json \<Rightarrow> (string \<times> json) list" where
  "dict_setdefault d k v = (case map_of d k of None \<Rightarrow> dict_set d k v | Some _ \<Rightarrow> d)"

text \<open>
  \<^verbatim>\<open>x == k\<close> for an integer constant \<^verbatim>\<open>k\<close>: an integer equals it by value, a boolean
  as 0 or 1, no other decoded value equals an integer.
\<close>

fun py_eq_int :: "json \<Rightarrow> int \<Rightarrow> bool" where
  "py_eq_int (JInt i) k = (i = k)"
| "py_eq_int (JBool b) k = ((if b then 1 else 0) = k)"
| "py_eq_int _ k = False"

text \<open>\<^verbatim>\<open>x == s\<close> for a string constant \<^verbatim>\<open>s\<close>.\<close>

fun py_eq_str :: "json \<Rightarrow> string \<Rightarrow> bool" where
  "py_eq_str (JStr t) s = (t = s)"
| "py_eq_str _ s = False"

text \<open>
  \<^verbatim>\<open>x[k]\<close> with a string \<^verbatim>\<open>k\<close>: the member of a dict, \<^verbatim>\<open>KeyError\<close> when it has none;
  every other decoded value raises \<^verbatim>\<open>TypeError\<close> (a list or a string wants an integer
  index, \<^verbatim>\<open>None\<close> and numbers are not subscriptable).
\<close>

fun py_item :: "json \<Rightarrow> string \<Rightarrow> py_error + json" where
  "py_item (JObj d) k = (case map_of d k of None \<Rightarrow> Inl KeyError | Some v \<Rightarrow> Inr v)"
| "py_item _ k = Inl TypeError"

text \<open>
  \<^verbatim>\<open>x[i]\<close> with \<^verbatim>\<open>i\<close> one of the literals 0 and 1: an element of a list, a character of
  a string (\<^verbatim>\<open>IndexError\<close> past the end); a dict has string keys only, so the integer is
  a \<^verbatim>\<open>KeyError\<close>; \<^verbatim>\<open>None\<close> and numbers raise \<^verbatim>\<open>TypeError\<close>.
\<close>

fun py_index :: "json \<Rightarrow> nat \<Rightarrow> py_error + json" where
  "py_index (JArr xs) i = (if i < length xs then Inr (xs ! i) else Inl IndexError)"
| "py_index (JStr s) i = (if i < length s then Inr (JStr [s ! i]) else Inl IndexError)"
| "py_index (JObj d) i = Inl KeyError"
| "py_index _ i = Inl TypeError"

text \<open>
  \<^verbatim>\<open>for x in v\<close>: the items a decoded value yields. A list yields its elements, a string
  its characters, a dict its keys; \<^verbatim>\<open>None\<close> and numbers are not iterable.
\<close>

fun py_iter :: "json \<Rightarrow> py_error + json list" where
  "py_iter (JArr xs) = Inr xs"
| "py_iter (JStr s) = Inr (map (\<lambda>c. JStr [c]) s)"
| "py_iter (JObj d) = Inr (map (\<lambda>p. JStr (fst p)) d)"
| "py_iter _ = Inl TypeError"

text \<open>\<^verbatim>\<open>k in d\<close> on a dict.\<close>

definition has_key :: "(string \<times> 'v) list \<Rightarrow> string \<Rightarrow> bool" where
  "has_key d k \<longleftrightarrow> map_of d k \<noteq> None"

text \<open>\<^verbatim>\<open>isinstance(x, dict)\<close>, and the members of a value that is a dict.\<close>

fun is_dict :: "json \<Rightarrow> bool" where
  "is_dict (JObj d) = True"
| "is_dict _ = False"

fun dict_members :: "json \<Rightarrow> (string \<times> json) list" where
  "dict_members (JObj d) = d"
| "dict_members _ = []"

section \<open>The transport\<close>

text \<open>
  What a call of \<^verbatim>\<open>requests.get\<close> or \<^verbatim>\<open>requests.post\<close> gives: a response object, of
  which the scripts read \<^verbatim>\<open>status_code\<close>, \<^verbatim>\<open>text\<close> or the streamed bytes
  (\<open>content\<close>) and \<^verbatim>\<open>json()\<close> (\<open>json_body\<close>, \<open>None\<close> when the body does not decode,
  where \<^verbatim>\<open>json()\<close> raises); or an exception of the library (no connection, a timeout),
  which the scripts do not catch.
\<close>

record response =
  status_code :: int
  content :: string
  json_body :: "json option"

datatype http_result = ConnectionFailed | Response response

section \<open>Diagnostics\<close>

text \<open>
  One constructor per \<^verbatim>\<open>print(..., file=sys.stderr)\<close> of \<^verbatim>\<open>optimize_audio.py\<close>, with
  the values its f-string interpolates.
\<close>

datatype diag =
    Uploading string
  | ErrApiReturned int string
  | ErrApplication json
  | Processing json
  | WarnStatusCheck int
  | StatusLine json nat
  | ErrProductionFailed json
  | ErrTimedOut nat
  | Downloading json
  | WarnDownloadFailed json int
  | WarnNoOutputs

section \<open>The Poller: \<^verbatim>\<open>poll_status\<close>\<close>

definition STATUS_DONE :: int where
  "STATUS_DONE = 3"

definition STATUS_ERROR :: int where
  "STATUS_ERROR = 9"

definition STATUS_INCOMPLETE :: int where
  "STATUS_INCOMPLETE = 13"

definition POLL_INTERVAL :: nat where
  "POLL_INTERVAL = 10"

definition MAX_POLL_TIME :: nat where
  "MAX_POLL_TIME = 600"

text \<open>
  The state of the loop: the counter \<^verbatim>\<open>waited\<close>, and what the loop has done to the
  world: the seconds handed to \<^verbatim>\<open>time.sleep\<close> in total (\<open>slept\<close>), the number of
  status queries issued (\<open>queries\<close>) and the diagnostics printed (\<open>stderr\<close>).
\<close>

record poll_state =
  waited :: nat
  slept :: nat
  queries :: nat
  stderr :: "diag list"

text \<open>How one pass through the body of the \<^verbatim>\<open>while\<close> ends.\<close>

datatype poll_ctl = Continue | Return json | Abort fatal

text \<open>
  The body of the loop (lines 147 to 170), given the outcome of its status query:
  sleep, advance \<^verbatim>\<open>waited\<close>, query; a status code other than 200 warns and
  \<^verbatim>\<open>continue\<close>s; otherwise the decoded body's \<^verbatim>\<open>data\<close> is classified by its
  \<^verbatim>\<open>status\<close>.
\<close>

definition poll_body :: "http_result \<Rightarrow> poll_state \<Rightarrow> poll_ctl \<times> poll_state" where
  "poll_body reply s =
     (let s1 = s\<lparr>waited := waited s + POLL_INTERVAL,
                 slept := slept s + POLL_INTERVAL,
                 queries := Suc (queries s)\<rparr>
      in case reply of
           ConnectionFailed \<Rightarrow> (Abort (Raised RequestException), s1)
         | Response resp \<Rightarrow>
             if status_code resp \<noteq> 200
             then (Continue, s1\<lparr>stderr := stderr s1 @ [WarnStatusCheck (status_code resp)]\<rparr>)
             else
               (case json_body resp of
                  None \<Rightarrow> (Abort (Raised JSONDecodeError), s1)
                | Some body \<Rightarrow>
                    (case py_get body ''data'' (JObj []) of
                       Inl e \<Rightarrow> (Abort (Raised e), s1)
                     | Inr data \<Rightarrow>
                         (case data of
                            JObj d \<Rightarrow>
                              let status = dict_get d ''status'' JNull;
                                  status_str = dict_get d ''status_string'' (JStr ''Unknown'');
                                  s2 = s1\<lparr>stderr := stderr s1 @ [StatusLine status_str (waited s1)]\<rparr>
                              in if py_eq_int status STATUS_DONE then (Return data, s2)
                                 else if py_eq_int status STATUS_ERROR
                                         \<or> py_eq_int status STATUS_INCOMPLETE
                                 then (Abort (SysExit 1),
                                       s2\<lparr>stderr := stderr s2 @
                                          [ErrProductionFailed
                                             (dict_get d ''error_message'' (JStr ''Unknown error''))]\<rparr>)
                                 else (Continue, s2)
                          | _ \<Rightarrow> (Abort (Raised AttributeError), s1)))))"

text \<open>
  The \<^verbatim>\<open>while waited < MAX_POLL_TIME\<close> loop and the two lines after it. \<open>net i\<close> is the
  outcome of the \<open>i\<close>-th status query, so \<open>net\<close> ranges over every sequence of
  responses the service can give.
\<close>

function poll_loop :: "(nat \<Rightarrow> http_result) \<Rightarrow> poll_state \<Rightarrow> (fatal + json) \<times> poll_state" where
  "poll_loop net s =
     (if waited s < MAX_POLL_TIME
      then (case poll_body (net (queries s)) s of
              (Continue, s') \<Rightarrow> poll_loop net s'
            | (Return data, s') \<Rightarrow> (Inr data, s')
            | (Abort f, s') \<Rightarrow> (Inl f, s'))
      else (Inl (SysExit 1), s\<lparr>stderr := stderr s @ [ErrTimedOut MAX_POLL_TIME]\<rparr>))"
  by pat_completeness auto
termination
proof (relation "measure (\<lambda>(net, s). MAX_POLL_TIME - waited s)")
  show "wf (measure (\<lambda>(net, s). MAX_POLL_TIME - waited s))"
    by simp
next
  fix net :: "nat \<Rightarrow> http_result" and s x1 s'
  assume guard: "waited s < MAX_POLL_TIME"
    and body: "(x1, s') = poll_body (net (queries s)) s"
  from body have "s' = snd (poll_body (net (queries s)) s)"
    by (metis snd_conv)
  then have "waited s' = waited s + POLL_INTERVAL"
    by (simp add: poll_body_def Let_def
          split: http_result.splits option.splits sum.splits json.splits)
  with guard show "((net, s'), (net, s)) \<in> measure (\<lambda>(net, s). MAX_POLL_TIME - waited s)"
    by (simp add: POLL_INTERVAL_def)
qed

declare poll_loop.simps [simp del]

definition poll_status :: "(nat \<Rightarrow> http_result) \<Rightarrow> json \<Rightarrow> (fatal + json) \<times> poll_state" where
  "poll_status net production_uuid =
     poll_loop net \<lparr>waited = 0, slept = 0, queries = 0, stderr = [Processing production_uuid]\<rparr>"

section \<open>The Submitter: \<^verbatim>\<open>upload_and_start\<close>\<close>

text \<open>
  What the Submitter has done to the world when it returns or dies: the number of
  requests it has sent and the diagnostics it has printed.
\<close>

record submit_state =
  posts :: nat
  submit_stderr :: "diag list"

text \<open>
  \<open>net i\<close> is the outcome the \<open>i\<close>-th \<^verbatim>\<open>requests.post\<close> of the call would have; the
  function has one such call and no loop. \<open>file_name\<close> is \<^verbatim>\<open>file_path.name\<close>. The
  input file is taken to be readable (\<^verbatim>\<open>main\<close> has checked that it exists).
\<close>

definition upload_and_start :: "(nat \<Rightarrow> http_result) \<Rightarrow> string \<Rightarrow> (fatal + json) \<times> submit_state" where
  "upload_and_start net file_name =
     (let s = \<lparr>posts = 1, submit_stderr = [Uploading file_name]\<rparr>
      in case net 0 of
           ConnectionFailed \<Rightarrow> (Inl (Raised RequestException), s)
         | Response resp \<Rightarrow>
             if status_code resp \<noteq> 200
             then (Inl (SysExit 1),
                   s\<lparr>submit_stderr := submit_stderr s @
                        [ErrApiReturned (status_code resp) (content resp)]\<rparr>)
             else
               (case json_body resp of
                  None \<Rightarrow> (Inl (Raised JSONDecodeError), s)
                | Some body \<Rightarrow>
                    (case py_get body ''error_code'' JNull of
                       Inl e \<Rightarrow> (Inl (Raised e), s)
                     | Inr error_code \<Rightarrow>
                         if truthy error_code
                         then (case py_get body ''error_message'' (JStr ''Unknown error'') of
                                 Inl e \<Rightarrow> (Inl (Raised e), s)
                               | Inr msg \<Rightarrow>
                                   (Inl (SysExit 1),
                                    s\<lparr>submit_stderr := submit_stderr s @ [ErrApplication msg]\<rparr>))
                         else (case py_item body ''data'' of
                                 Inl e \<Rightarrow> (Inl (Raised e), s)
                               | Inr data \<Rightarrow> (Inr data, s)))))"

subsection \<open>The specification's words for the Submitter\<close>

text \<open>
  The words of the specification for the Submitter: a transport response is successful
  when its status is 2xx; a body encodes an application-level error when it is an object
  whose \<^verbatim>\<open>error_code\<close> is set.
\<close>

definition spec_is_2xx :: "int \<Rightarrow> bool" where
  "spec_is_2xx c \<longleftrightarrow> 200 \<le> c \<and> c < 300"

definition encodes_app_error :: "response \<Rightarrow> bool" where
  "encodes_app_error resp =
     (case json_body resp of
        Some (JObj d) \<Rightarrow> truthy (dict_get d ''error_code'' JNull)
      | _ \<Rightarrow> False)"

definition spec_submit_fatal :: "response \<Rightarrow> bool" where
  "spec_submit_fatal resp \<longleftrightarrow>
     \<not> spec_is_2xx (status_code resp) \<or> (spec_is_2xx (status_code resp) \<and> encodes_app_error resp)"

section \<open>The Downloader: \<^verbatim>\<open>download_results\<close>\<close>

text \<open>The format tags of line 189, whose artifacts are not fetched.\<close>

definition aux_formats :: "string list" where
  "aux_formats = [''descr'', ''stats'', ''chaps'', ''psc'', ''cut-list'', ''waveform'', ''image'']"

text \<open>\<^verbatim>\<open>fmt in ("descr", ..., "image")\<close>: equality with one of the strings.\<close>

definition fmt_denied :: "json \<Rightarrow> bool" where
  "fmt_denied fmt = list_ex (py_eq_str fmt) aux_formats"

text \<open>An element of the returned list: the dict of lines 208 to 213.\<close>

record downloaded_file =
  dl_filename :: string
  dl_format :: json
  dl_size :: json
  dl_path :: string

text \<open>
  The list \<^verbatim>\<open>downloaded\<close> and what the function has done to the world: the files
  written, in order, each as the position in \<^verbatim>\<open>output_files\<close> of the artifact it was
  written for, the file name joined to \<^verbatim>\<open>output_path\<close> and the bytes; and the
  diagnostics printed. Creating \<^verbatim>\<open>output_path\<close> (line 178) and opening and writing a
  destination are taken to succeed.
\<close>

record dl_state =
  downloaded :: "downloaded_file list"
  written :: "(nat \<times> string \<times> string) list"
  dl_stderr :: "diag list"

text \<open>
  The body of the \<^verbatim>\<open>for\<close> loop (lines 183 to 213) for the artifact \<open>artifact\<close> at
  position \<open>i\<close>, where \<open>reply\<close> is the outcome of its \<^verbatim>\<open>requests.get\<close>, should it be
  reached. \<open>relpath name\<close> is \<^verbatim>\<open>str((output_path / name).relative_to(REPO_ROOT))\<close>,
  \<open>None\<close> where \<^verbatim>\<open>relative_to\<close> raises \<^verbatim>\<open>ValueError\<close> (a destination outside the
  repository); a file name that is no string makes \<^verbatim>\<open>output_path / filename\<close> raise
  \<^verbatim>\<open>TypeError\<close>. The first component is \<open>None\<close> when the loop goes on to the next
  artifact.
\<close>

definition download_one ::
  "(string \<Rightarrow> string option) \<Rightarrow> http_result \<Rightarrow> nat \<Rightarrow> json \<Rightarrow> dl_state \<Rightarrow> fatal option \<times> dl_state" where
  "download_one relpath reply i artifact st =
     (case artifact of
        JObj d \<Rightarrow>
          let url = dict_get d ''download_url'' JNull;
              filename = dict_get d ''filename'' JNull
          in if \<not> truthy url \<or> \<not> truthy filename then (None, st)
             else
               let fmt = dict_get d ''format'' (JStr '''')
               in if fmt_denied fmt then (None, st)
                  else
                    let st1 = st\<lparr>dl_stderr := dl_stderr st @ [Downloading filename]\<rparr>
                    in (case reply of
                          ConnectionFailed \<Rightarrow> (Some (Raised RequestException), st1)
                        | Response resp \<Rightarrow>
                            if status_code resp \<noteq> 200
                            then (None, st1\<lparr>dl_stderr := dl_stderr st1 @
                                     [WarnDownloadFailed filename (status_code resp)]\<rparr>)
                            else
                              (case filename of
                                 JStr name \<Rightarrow>
                                   let st2 = st1\<lparr>written := written st1 @ [(i, name, content resp)]\<rparr>
                                   in (case relpath name of
                                         None \<Rightarrow> (Some (Raised ValueError), st2)
                                       | Some p \<Rightarrow>
                                           (None, st2\<lparr>downloaded := downloaded st2 @
                                              [\<lparr>dl_filename = name, dl_format = fmt,
                                                dl_size = dict_get d ''size_string'' (JStr ''''),
                                                dl_path = p\<rparr>]\<rparr>))
                               | _ \<Rightarrow> (Some (Raised TypeError), st1)))
      | _ \<Rightarrow> (Some (Raised AttributeError), st))"

text \<open>
  The \<^verbatim>\<open>for\<close> loop over the artifacts from position \<open>i\<close> on. \<open>fetch i\<close> is the outcome
  of the download request for the artifact at position \<open>i\<close>.
\<close>

fun download_loop ::
  "(string \<Rightarrow> string option) \<Rightarrow> (nat \<Rightarrow> http_result) \<Rightarrow> nat \<Rightarrow> json list \<Rightarrow> dl_state
     \<Rightarrow> fatal option \<times> dl_state" where
  "download_loop relpath fetch i [] st = (None, st)"
| "download_loop relpath fetch i (artifact # rest) st =
     (case download_one relpath (fetch i) i artifact st of
        (Some f, st') \<Rightarrow> (Some f, st')
      | (None, st') \<Rightarrow> download_loop relpath fetch (Suc i) rest st')"

definition download_results ::
  "(string \<Rightarrow> string option) \<Rightarrow> (nat \<Rightarrow> http_result) \<Rightarrow> json
     \<Rightarrow> (fatal + downloaded_file list) \<times> dl_state" where
  "download_results relpath fetch production_data =
     (let st0 = \<lparr>downloaded = [], written = [], dl_stderr = []\<rparr>
      in case py_get production_data ''output_files'' (JArr []) of
           Inl e \<Rightarrow> (Inl (Raised e), st0)
         | Inr output_files \<Rightarrow>
             (case py_iter output_files of
                Inl e \<Rightarrow> (Inl (Raised e), st0)
              | Inr artifacts \<Rightarrow>
                  (case download_loop relpath fetch 0 artifacts st0 of
                     (Some f, st) \<Rightarrow> (Inl f, st)
                   | (None, st) \<Rightarrow> (Inr (downloaded st), st))))"

text \<open>
  The artifacts the loop of \<^verbatim>\<open>download_results\<close> runs over (lines 181 and 182), none
  where evaluating them raises; and the format tag line 188 reads from an artifact.
\<close>

definition output_artifacts :: "json \<Rightarrow> json list" where
  "output_artifacts production_data =
     (case py_get production_data ''output_files'' (JArr []) of
        Inl e \<Rightarrow> []
      | Inr output_files \<Rightarrow> (case py_iter output_files of Inl e \<Rightarrow> [] | Inr artifacts \<Rightarrow> artifacts))"

definition artifact_format :: "json \<Rightarrow> json" where
  "artifact_format artifact =
     (case artifact of JObj d \<Rightarrow> dict_get d ''format'' (JStr '''') | _ \<Rightarrow> JNull)"

section \<open>The IndexReconciler: \<^verbatim>\<open>update_index\<close>\<close>

text \<open>
  \<^verbatim>\<open>file_index.json\<close> as \<^verbatim>\<open>update_index\<close> finds it: absent, present with a text that
  \<^verbatim>\<open>json.load\<close> cannot decode, or present and decoding to a value. Writing a value with
  \<^verbatim>\<open>json.dump\<close> leaves a file that decodes to this value again (its dicts have string
  keys, and the value holds no floating-point number), so a file is identified with the
  value it decodes to; the text written is a function of that value (\<open>json_dumps\<close>
  below), so equal values are files equal byte for byte.
\<close>

datatype index_file = NoFile | Undecodable | Holds json

text \<open>The key of line 228 and the \<^verbatim>\<open>origin\<close> of lines 234 to 238.\<close>

definition index_key :: "string \<Rightarrow> downloaded_file \<Rightarrow> string" where
  "index_key output_dir dl = output_dir @ ''/'' @ dl_filename dl"

definition origin_of :: "json \<Rightarrow> downloaded_file \<Rightarrow> json" where
  "origin_of production_uuid dl =
     JObj [(''skill'', JStr ''auphonic-optimize''),
           (''auphonic_production'', production_uuid),
           (''format'', dl_format dl)]"

text \<open>
  Lines 230 to 238 on the members of the dict \<^verbatim>\<open>entry\<close>. \<open>today\<close> is
  \<^verbatim>\<open>datetime.now().strftime("%Y-%m-%d")\<close>.
\<close>

definition entry_update ::
  "string \<Rightarrow> json \<Rightarrow> downloaded_file \<Rightarrow> (string \<times> json) list \<Rightarrow> (string \<times> json) list" where
  "entry_update today production_uuid dl entry =
     (let e1 = dict_set entry ''added'' (dict_get entry ''added'' (JStr today));
          e2 = dict_set e1 ''type'' (JStr ''audio'');
          e3 = dict_setdefault e2 ''description'' (JStr '''');
          e4 = dict_setdefault e3 ''notes'' (JStr '''')
      in dict_set e4 ''origin'' (origin_of production_uuid dl))"

text \<open>
  The body of the \<^verbatim>\<open>for\<close> loop (lines 228 to 239) for one downloaded file.
  \<^verbatim>\<open>index.get\<close> wants \<^verbatim>\<open>index\<close> to be a dict and \<^verbatim>\<open>entry.get\<close> wants the entry found
  to be one; \<^verbatim>\<open>AttributeError\<close> otherwise.
\<close>

definition index_step ::
  "string \<Rightarrow> string \<Rightarrow> json \<Rightarrow> json \<Rightarrow> downloaded_file \<Rightarrow> py_error + json" where
  "index_step today output_dir production_uuid index dl =
     (let key = index_key output_dir dl
      in case index of
           JObj idx \<Rightarrow>
             (case dict_get idx key (JObj []) of
                JObj entry \<Rightarrow>
                  Inr (JObj (dict_set idx key (JObj (entry_update today production_uuid dl entry))))
              | _ \<Rightarrow> Inl AttributeError)
         | _ \<Rightarrow> Inl AttributeError)"

fun index_loop ::
  "string \<Rightarrow> string \<Rightarrow> json \<Rightarrow> json \<Rightarrow> downloaded_file list \<Rightarrow> py_error + json" where
  "index_loop today output_dir production_uuid index [] = Inr index"
| "index_loop today output_dir production_uuid index (dl # dls) =
     (case index_step today output_dir production_uuid index dl of
        Inl e \<Rightarrow> Inl e
      | Inr index' \<Rightarrow> index_loop today output_dir production_uuid index' dls)"

text \<open>
  \<^verbatim>\<open>update_index\<close>: the exception it dies of, if any, and the index file it leaves. An
  exception of lines 221 to 239 comes before the file is opened for writing and leaves
  it as it was. The three lines that write it (241 to 243) are taken to complete here;
  \<open>persist\<close> below models them step by step.
\<close>

definition update_index ::
  "string \<Rightarrow> string \<Rightarrow> downloaded_file list \<Rightarrow> json \<Rightarrow> index_file \<Rightarrow> py_error option \<times> index_file" where
  "update_index today output_dir downloaded_list production_uuid file =
     (case file of
        Undecodable \<Rightarrow> (Some JSONDecodeError, file)
      | _ \<Rightarrow>
          (let index = (case file of Holds j \<Rightarrow> j | _ \<Rightarrow> JObj [])
           in case index_loop today output_dir production_uuid index downloaded_list of
                Inl e \<Rightarrow> (Some e, file)
              | Inr index' \<Rightarrow> (None, Holds index')))"

subsection \<open>The loop on a dict, for the proofs\<close>

text \<open>
  What \<open>index_step\<close> and \<open>index_loop\<close> compute when nothing raises, as total functions
  on the members of \<^verbatim>\<open>index\<close>; \<open>index_loop_dict\<close> below relates them to the loop.
\<close>

definition put_entry ::
  "string \<Rightarrow> string \<Rightarrow> json \<Rightarrow> downloaded_file \<Rightarrow> (string \<times> json) list \<Rightarrow> (string \<times> json) list" where
  "put_entry today output_dir production_uuid dl idx =
     dict_set idx (index_key output_dir dl)
       (JObj (entry_update today production_uuid dl
                (dict_members (dict_get idx (index_key output_dir dl) (JObj [])))))"

definition put_entries ::
  "string \<Rightarrow> string \<Rightarrow> json \<Rightarrow> downloaded_file list \<Rightarrow> (string \<times> json) list \<Rightarrow> (string \<times> json) list" where
  "put_entries today output_dir production_uuid dls idx =
     fold (put_entry today output_dir production_uuid) dls idx"

text \<open>The entry under a key is a dict with an \<^verbatim>\<open>added\<close> member.\<close>

definition has_added :: "(string \<times> json) list \<Rightarrow> string \<Rightarrow> bool" where
  "has_added z k = (case map_of z k of Some (JObj e) \<Rightarrow> has_key e ''added'' | _ \<Rightarrow> False)"

text \<open>
  The value \<^verbatim>\<open>entry.get("added", today)\<close> has for the entry under a key (\<^verbatim>\<open>{}\<close> when
  there is none).
\<close>

definition added_or :: "string \<Rightarrow> (string \<times> json) list \<Rightarrow> string \<Rightarrow> json" where
  "added_or today z k = dict_get (dict_members (dict_get z k (JObj []))) ''added'' (JStr today)"

section \<open>The StatsExtractor: \<^verbatim>\<open>extract_stats\<close>\<close>

text \<open>
  The f-strings of \<^verbatim>\<open>extract_stats\<close> apply Python's \<^verbatim>\<open>str\<close> to decoded values. It is the
  parameter \<open>str_of\<close> of the functions below, which are stated for every such function.
\<close>

text \<open>
  \<^verbatim>\<open>if side.get(field): result[key] = f"{side[field][0]} {side[field][1]}"\<close>, the shape
  of lines 257 to 264.
\<close>

definition level_entry ::
  "(json \<Rightarrow> string) \<Rightarrow> json \<Rightarrow> string \<Rightarrow> string \<Rightarrow> (string \<times> string) list
     \<Rightarrow> py_error + (string \<times> string) list" where
  "level_entry str_of side field key result =
     (case py_get side field JNull of
        Inl e \<Rightarrow> Inl e
      | Inr v \<Rightarrow>
          if truthy v
          then (case py_index v 0 of
                  Inl e \<Rightarrow> Inl e
                | Inr a \<Rightarrow>
                    (case py_index v 1 of
                       Inl e \<Rightarrow> Inl e
                     | Inr b \<Rightarrow> Inr (dict_set result key (str_of a @ '' '' @ str_of b))))
          else Inr result)"

text \<open>Line 269 for one element of \<^verbatim>\<open>cuts\<close>; the right-hand side is evaluated first.\<close>

definition cut_entry ::
  "(json \<Rightarrow> string) \<Rightarrow> json \<Rightarrow> (string \<times> string) list \<Rightarrow> py_error + (string \<times> string) list" where
  "cut_entry str_of c result =
     (case py_item c ''count'' of
        Inl e \<Rightarrow> Inl e
      | Inr count \<Rightarrow>
          (case py_item c ''percent'' of
             Inl e \<Rightarrow> Inl e
           | Inr percent \<Rightarrow>
               (case py_item c ''name'' of
                  Inl e \<Rightarrow> Inl e
                | Inr name \<Rightarrow>
                    Inr (dict_set result (''cuts_'' @ str_of name)
                           (str_of count @ '' cuts ('' @ str_of percent @ ''%)'')))))"

fun cuts_loop ::
  "(json \<Rightarrow> string) \<Rightarrow> json list \<Rightarrow> (string \<times> string) list \<Rightarrow> py_error + (string \<times> string) list" where
  "cuts_loop str_of [] result = Inr result"
| "cuts_loop str_of (c # cs) result =
     (case cut_entry str_of c result of
        Inl e \<Rightarrow> Inl e
      | Inr result' \<Rightarrow> cuts_loop str_of cs result')"

text \<open>Lines 266 to 269.\<close>

definition cuts_entries ::
  "(json \<Rightarrow> string) \<Rightarrow> json \<Rightarrow> (string \<times> string) list \<Rightarrow> py_error + (string \<times> string) list" where
  "cuts_entries str_of cuts result =
     (if truthy cuts
      then (case py_iter cuts of Inl e \<Rightarrow> Inl e | Inr cs \<Rightarrow> cuts_loop str_of cs result)
      else Inr result)"

text \<open>Lines 254 to 264, once \<^verbatim>\<open>levels\<close> is known to be true.\<close>

definition level_entries ::
  "(json \<Rightarrow> string) \<Rightarrow> json \<Rightarrow> py_error + (string \<times> string) list" where
  "level_entries str_of levels =
     (case py_get levels ''input'' (JObj []) of
        Inl e \<Rightarrow> Inl e
      | Inr inp \<Rightarrow>
          (case py_get levels ''output'' (JObj []) of
             Inl e \<Rightarrow> Inl e
           | Inr out \<Rightarrow>
               (case level_entry str_of inp ''loudness'' ''input_loudness'' [] of
                  Inl e \<Rightarrow> Inl e
                | Inr r1 \<Rightarrow>
                    (case level_entry str_of inp ''snr'' ''input_snr'' r1 of
                       Inl e \<Rightarrow> Inl e
                     | Inr r2 \<Rightarrow>
                         (case level_entry str_of out ''loudness'' ''output_loudness'' r2 of
                            Inl e \<Rightarrow> Inl e
                          | Inr r3 \<Rightarrow> level_entry str_of out ''peak'' ''output_peak'' r3)))))"

text \<open>
  \<^verbatim>\<open>extract_stats\<close>: \<open>Inr None\<close> is the result \<^verbatim>\<open>None\<close>, \<open>Inr (Some result)\<close> a dict with
  its members in order.
\<close>

definition extract_stats ::
  "(json \<Rightarrow> string) \<Rightarrow> json \<Rightarrow> py_error + (string \<times> string) list option" where
  "extract_stats str_of production_data =
     (case py_get production_data ''statistics'' (JObj []) of
        Inl e \<Rightarrow> Inl e
      | Inr stats \<Rightarrow>
          (case py_get stats ''levels'' JNull of
             Inl e \<Rightarrow> Inl e
           | Inr levels \<Rightarrow>
               if \<not> truthy levels then Inr None
               else
                 (case level_entries str_of levels of
                    Inl e \<Rightarrow> Inl e
                  | Inr result \<Rightarrow>
                      (case py_get stats ''cuts'' JNull of
                         Inl e \<Rightarrow> Inl e
                       | Inr cuts \<Rightarrow>
                           (case cuts_entries str_of cuts result of
                              Inl e \<Rightarrow> Inl e
                            | Inr result' \<Rightarrow>
                                Inr (if result' \<noteq> [] then Some result' else None))))))"

subsection \<open>Statistics as the data model describes them\<close>

text \<open>
  The specification's Statistics: \<^verbatim>\<open>levels.input\<close> and \<^verbatim>\<open>levels.output\<close> with loudness,
  peak and signal-to-noise as (value, unit) pairs, and an optional list of cuts, each
  with a name, a count and a percentage. Absent members are allowed everywhere.
\<close>

fun is_pair :: "json \<Rightarrow> bool" where
  "is_pair (JArr [a, b]) = True"
| "is_pair _ = False"

definition pair_or_absent :: "(string \<times> json) list \<Rightarrow> string \<Rightarrow> bool" where
  "pair_or_absent side field = (case map_of side field of None \<Rightarrow> True | Some v \<Rightarrow> is_pair v)"

fun is_cut :: "json \<Rightarrow> bool" where
  "is_cut (JObj c) = (has_key c ''name'' \<and> has_key c ''count'' \<and> has_key c ''percent'')"
| "is_cut _ = False"

text \<open>The name line 269 reads from a cut.\<close>

definition cut_name :: "json \<Rightarrow> json" where
  "cut_name c = dict_get (dict_members c) ''name'' JNull"

definition full_statistics ::
  "(string \<times> json) list \<Rightarrow> (string \<times> json) list \<Rightarrow> (string \<times> json) list \<Rightarrow> json list \<Rightarrow> bool" where
  "full_statistics levels inp out cuts \<longleftrightarrow>
     levels \<noteq> []
     \<and> dict_get levels ''input'' (JObj []) = JObj inp
     \<and> dict_get levels ''output'' (JObj []) = JObj out
     \<and> pair_or_absent inp ''loudness'' \<and> pair_or_absent inp ''snr''
     \<and> pair_or_absent out ''loudness'' \<and> pair_or_absent out ''peak''
     \<and> list_all is_cut cuts"

text \<open>The keys of the level members that are there.\<close>

definition level_keys :: "(string \<times> json) list \<Rightarrow> (string \<times> json) list \<Rightarrow> string list" where
  "level_keys inp out =
     (if has_key inp ''loudness'' then [''input_loudness''] else [])
     @ (if has_key inp ''snr'' then [''input_snr''] else [])
     @ (if has_key out ''loudness'' then [''output_loudness''] else [])
     @ (if has_key out ''peak'' then [''output_peak''] else [])"

section \<open>The run: \<^verbatim>\<open>main\<close> from the submission on\<close>






section \<open>Writing the index: lines 241 to 243\<close>

text \<open>
  \<^verbatim>\<open>json.dump(index, f, indent=2)\<close> on a decoded value, with the defaults of the
  \<^verbatim>\<open>json\<close> module otherwise (\<^verbatim>\<open>ensure_ascii\<close>, the separators \<^verbatim>\<open>","\<close> and \<^verbatim>\<open>": "\<close>).
  A character of a string is a code point below 256: the printable ASCII characters
  stand for themselves but for the backslash and the double quote, which get a backslash;
  backspace, form feed, newline, carriage return and tab are \<^verbatim>\<open>\b \f \n \r \t\<close>; every
  other character is \<^verbatim>\<open>\u\<close> and four hexadecimal digits.
\<close>

definition hex4 :: "nat \<Rightarrow> string" where
  "hex4 n =
     [''0123456789abcdef'' ! (n div 4096 mod 16), ''0123456789abcdef'' ! (n div 256 mod 16),
      ''0123456789abcdef'' ! (n div 16 mod 16), ''0123456789abcdef'' ! (n mod 16)]"

definition escape_char :: "char \<Rightarrow> string" where
  "escape_char c =
     (let n = (of_char c :: nat)
      in if n = 0x5C then [CHR 0x5C, CHR 0x5C]
         else if n = 0x22 then [CHR 0x5C, CHR 0x22]
         else if n = 0x08 then [CHR 0x5C, CHR ''b'']
         else if n = 0x0C then [CHR 0x5C, CHR ''f'']
         else if n = 0x0A then [CHR 0x5C, CHR ''n'']
         else if n = 0x0D then [CHR 0x5C, CHR ''r'']
         else if n = 0x09 then [CHR 0x5C, CHR ''t'']
         else if 0x20 \<le> n \<and> n \<le> 0x7E then [c]
         else [CHR 0x5C, CHR ''u''] @ hex4 n)"

definition encode_string :: "string \<Rightarrow> string" where
  "encode_string s = [CHR 0x22] @ concat (map escape_char s) @ [CHR 0x22]"

text \<open>\<^verbatim>\<open>'\n' + ' ' * (2 * level)\<close>.\<close>

definition newline_indent :: "nat \<Rightarrow> string" where
  "newline_indent level = CHR 0x0A # replicate (2 * level) CHR '' ''"

text \<open>\<^verbatim>\<open>sep.join(parts)\<close>.\<close>

fun join :: "string \<Rightarrow> string list \<Rightarrow> string" where
  "join sep [] = []"
| "join sep [x] = x"
| "join sep (x # y # ys) = x @ sep @ join sep (y # ys)"

text \<open>Python's \<^verbatim>\<open>int.__repr__\<close>: the decimal digits, a minus sign before a negative number.\<close>

fun digits10 :: "nat \<Rightarrow> string" where
  "digits10 n =
     (if n < 10 then [''0123456789'' ! n]
      else digits10 (n div 10) @ [''0123456789'' ! (n mod 10)])"

definition str_int :: "int \<Rightarrow> string" where
  "str_int i = (if i < 0 then CHR ''-'' # digits10 (nat (- i)) else digits10 (nat i))"

fun dumps_at :: "nat \<Rightarrow> json \<Rightarrow> string" where
  "dumps_at level JNull = ''null''"
| "dumps_at level (JBool b) = (if b then ''true'' else ''false'')"
| "dumps_at level (JInt i) = str_int i"
| "dumps_at level (JStr s) = encode_string s"
| "dumps_at level (JArr xs) =
     (if xs = [] then ''[]''
      else ''['' @ newline_indent (Suc level)
           @ join ('','' @ newline_indent (Suc level)) (map (dumps_at (Suc level)) xs)
           @ newline_indent level @ '']'')"
| "dumps_at level (JObj kvs) =
     (if kvs = [] then ''{}''
      else ''{'' @ newline_indent (Suc level)
           @ join ('','' @ newline_indent (Suc level))
               (map (\<lambda>p. encode_string (fst p) @ '': '' @ dumps_at (Suc level) (snd p)) kvs)
           @ newline_indent level @ ''}'')"

definition json_dumps :: "json \<Rightarrow> string" where
  "json_dumps j = dumps_at 0 j"

text \<open>
  The three lines that write the index: \<^verbatim>\<open>open(index_path, "w")\<close> empties the file (or
  creates it), then the text of \<^verbatim>\<open>json.dump\<close> and a newline go into it. The file on
  disk is its text, \<open>None\<close> when there is no file. The lines run to their end or not:
  \<^verbatim>\<open>open\<close> itself can raise, which leaves the file alone; after it, the run can die
  (an error of the disk, the end of the process) when only the first \<open>n\<close> characters
  have reached the file.
\<close>

datatype write_fault = Completes | OpenRaises | DiesAfter nat

definition persist :: "json \<Rightarrow> write_fault \<Rightarrow> string option \<Rightarrow> string option" where
  "persist index fault on_disk =
     (case fault of
        OpenRaises \<Rightarrow> on_disk
      | Completes \<Rightarrow> Some (json_dumps index @ [CHR 0x0A])
      | DiesAfter n \<Rightarrow> Some (take n (json_dumps index @ [CHR 0x0A])))"

section \<open>Concrete inputs\<close>

text \<open>
  Replies of the service and other concrete values at which the theorems below are
  instantiated.
\<close>

text \<open>A response whose body is the JSON text of a value.\<close>

definition json_response :: "int \<Rightarrow> json \<Rightarrow> response" where
  "json_response code body = \<lparr>status_code = code, content = json_dumps body, json_body = Some body\<rparr>"

definition done_reply :: http_result where
  "done_reply = Response (json_response 200
       (JObj [(''data'', JObj [(''status'', JInt 3), (''status_string'', JStr ''Done'')])]))"



definition created_resp :: response where
  "created_resp = json_response 201
       (JObj [(''data'', JObj [(''uuid'', JStr ''p1''), (''status'', JInt 0)])])"

definition started_resp :: response where
  "started_resp = json_response 200
       (JObj [(''status_code'', JInt 200), (''error_code'', JNull),
              (''data'', JObj [(''uuid'', JStr ''p1''), (''status'', JInt 0)])])"

definition audio_artifact :: json where
  "audio_artifact = JObj [(''download_url'', JStr ''https://auphonic.com/d/a.mp3''),
     (''filename'', JStr ''a.mp3''), (''format'', JStr ''mp3''), (''size_string'', JStr ''1.2 MB'')]"

definition waveform_artifact :: json where
  "waveform_artifact = JObj [(''download_url'', JStr ''https://auphonic.com/d/a.png''),
     (''filename'', JStr ''a.png''), (''format'', JStr ''waveform''), (''size_string'', JStr ''20 KB'')]"

definition nameless_artifact :: json where
  "nameless_artifact = JObj [(''download_url'', JStr ''https://auphonic.com/d/b.mp3''),
     (''format'', JStr ''mp3'')]"

definition succeeded_snapshot :: json where
  "succeeded_snapshot = JObj [(''status'', JInt 3), (''uuid'', JStr ''p1''),
     (''output_files'', JArr [audio_artifact, waveform_artifact])]"

definition ok_download :: http_result where
  "ok_download = Response \<lparr>status_code = 200, content = ''ID3'', json_body = None\<rparr>"


definition rel_in_project :: "string \<Rightarrow> string option" where
  "rel_in_project name = Some (''projects/demo/audio/optimized/'' @ name)"

definition prior_index :: index_file where
  "prior_index = Holds (JObj
     [(''audio/optimized/a.mp3'',
       JObj [(''added'', JStr ''2026-01-05''), (''type'', JStr ''audio''),
             (''description'', JStr ''Final mix''), (''notes'', JStr ''keep'')])])"

definition two_downloads :: "downloaded_file list" where
  "two_downloads =
     [\<lparr>dl_filename = ''a.mp3'', dl_format = JStr ''mp3'', dl_size = JStr ''1.2 MB'',
       dl_path = ''projects/demo/audio/optimized/a.mp3''\<rparr>,
      \<lparr>dl_filename = ''a.flac'', dl_format = JStr ''flac'', dl_size = JStr ''9 MB'',
       dl_path = ''projects/demo/audio/optimized/a.flac''\<rparr>]"

definition merged_index :: index_file where
  "merged_index = Holds (JObj
     [(''audio/optimized/a.mp3'',
       JObj [(''added'', JStr ''2026-01-05''), (''type'', JStr ''audio''),
             (''description'', JStr ''Final mix''), (''notes'', JStr ''keep''),
             (''origin'', JObj [(''skill'', JStr ''auphonic-optimize''),
                                (''auphonic_production'', JStr ''p1''),
                                (''format'', JStr ''mp3'')])]),
      (''audio/optimized/a.flac'',
       JObj [(''added'', JStr ''2026-03-01''), (''type'', JStr ''audio''),
             (''description'', JStr []), (''notes'', JStr []),
             (''origin'', JObj [(''skill'', JStr ''auphonic-optimize''),
                                (''auphonic_production'', JStr ''p1''),
                                (''format'', JStr ''flac'')])])])"

text \<open>
  Python's \<^verbatim>\<open>str\<close> on the decoded values that are no containers, to instantiate
  \<open>str_of\<close>: \<^verbatim>\<open>None\<close>, \<^verbatim>\<open>True\<close> and \<^verbatim>\<open>False\<close>, an integer in decimal, a string
  as it is. (The inputs below hold no list or dict where \<^verbatim>\<open>str\<close> is applied.)
\<close>

fun str_atom :: "json \<Rightarrow> string" where
  "str_atom JNull = ''None''"
| "str_atom (JBool b) = (if b then ''True'' else ''False'')"
| "str_atom (JInt i) = str_int i"
| "str_atom (JStr s) = s"
| "str_atom (JArr xs) = ''[...]''"
| "str_atom (JObj d) = ''{...}''"

definition full_input :: "(string \<times> json) list" where
  "full_input = [(''loudness'', JArr [JInt (- 23), JStr ''LUFS'']), (''snr'', JArr [JInt 40, JStr ''dB''])]"

definition full_output :: "(string \<times> json) list" where
  "full_output = [(''loudness'', JArr [JInt (- 16), JStr ''LUFS'']), (''peak'', JArr [JInt (- 1), JStr ''dBTP''])]"

definition full_levels :: "(string \<times> json) list" where
  "full_levels = [(''input'', JObj full_input), (''output'', JObj full_output)]"

definition full_cuts :: "json list" where
  "full_cuts =
     [JObj [(''name'', JStr ''filler''), (''count'', JInt 12), (''percent'', JInt 3)],
      JObj [(''name'', JStr ''silence''), (''count'', JInt 4), (''percent'', JInt 1)]]"

definition full_snapshot :: json where
  "full_snapshot = JObj
     [(''status'', JInt 3),
      (''statistics'', JObj [(''levels'', JObj full_levels), (''cuts'', JArr full_cuts)])]"

definition full_result :: "(string \<times> string) list" where
  "full_result =
     [(''input_loudness'', ''-23 LUFS''), (''input_snr'', ''40 dB''),
      (''output_loudness'', ''-16 LUFS''), (''output_peak'', ''-1 dBTP''),
      (''cuts_filler'', ''12 cuts (3%)''), (''cuts_silence'', ''4 cuts (1%)'')]"







definition small_index :: json where
  "small_index = JObj [(''audio/optimized/a.mp3'', JObj [(''added'', JStr ''2026-01-05'')])]"

chapter \<open>Properties\<close>

section \<open>The Poller\<close>

lemma poll_body_waited: "waited (snd (poll_body reply s)) = waited s + POLL_INTERVAL"
  by (simp add: poll_body_def Let_def split: http_result.splits option.splits sum.splits json.splits)

lemma py_eq_int_3: "py_eq_int j 3 \<longleftrightarrow> j = JInt 3"
  by (cases j) auto

lemma poll_body_Return:
  assumes "poll_body reply s = (Return data, s')"
  shows "\<exists>resp body d. reply = Response resp \<and> status_code resp = 200 \<and> json_body resp = Some body
           \<and> py_get body ''data'' (JObj []) = Inr data \<and> data = JObj d
           \<and> dict_get d ''status'' JNull = JInt STATUS_DONE"
  using assms
  by (auto simp: poll_body_def Let_def STATUS_DONE_def py_eq_int_3 split: http_result.splits option.splits sum.splits json.splits if_splits)

lemma poll_body_slept: "slept (snd (poll_body reply s)) = slept s + POLL_INTERVAL"
  by (simp add: poll_body_def Let_def split: http_result.splits option.splits sum.splits json.splits)


lemma poll_loop_Return:
  "poll_loop net s = (Inr data, s') \<Longrightarrow>
     \<exists>i resp body d. net i = Response resp \<and> status_code resp = 200 \<and> json_body resp = Some body
           \<and> py_get body ''data'' (JObj []) = Inr data \<and> data = JObj d
           \<and> dict_get d ''status'' JNull = JInt STATUS_DONE"
proof (induction net s rule: poll_loop.induct)
  case (1 net s)
  show ?case
  proof (cases "waited s < MAX_POLL_TIME")
    case False
    with "1.prems" show ?thesis by (simp add: poll_loop.simps [of net s])
  next
    case True
    obtain c s1 where body: "poll_body (net (queries s)) s = (c, s1)"
      by (cases "poll_body (net (queries s)) s")
    show ?thesis
    proof (cases c)
      case Continue
      with True body "1.prems" have "poll_loop net s1 = (Inr data, s')"
        by (simp add: poll_loop.simps [of net s])
      with "1.IH" True body Continue show ?thesis by simp
    next
      case (Return d)
      with True body "1.prems" have "d = data"
        by (simp add: poll_loop.simps [of net s])
      with body Return have "poll_body (net (queries s)) s = (Return data, s1)" by simp
      from poll_body_Return [OF this] show ?thesis by blast
    next
      case (Abort f)
      with True body "1.prems" show ?thesis
        by (simp add: poll_loop.simps [of net s])
    qed
  qed
qed

lemma poll_loop_slept:
  "slept (snd (poll_loop net s)) + waited s = waited (snd (poll_loop net s)) + slept s"
proof (induction net s rule: poll_loop.induct)
  case (1 net s)
  show ?case
  proof (cases "waited s < MAX_POLL_TIME")
    case False
    then show ?thesis by (simp add: poll_loop.simps [of net s])
  next
    case True
    obtain c s1 where body: "poll_body (net (queries s)) s = (c, s1)"
      by (cases "poll_body (net (queries s)) s")
    have w: "waited s1 = waited s + POLL_INTERVAL"
      using poll_body_waited [of "net (queries s)" s] body by simp
    have sl: "slept s1 = slept s + POLL_INTERVAL"
      using poll_body_slept [of "net (queries s)" s] body by simp
    show ?thesis
    proof (cases c)
      case Continue
      with "1.IH" True body
      have "slept (snd (poll_loop net s1)) + waited s1 = waited (snd (poll_loop net s1)) + slept s1"
        by simp
      moreover from True body Continue have "poll_loop net s = poll_loop net s1"
        by (simp add: poll_loop.simps [of net s])
      ultimately show ?thesis using w sl by simp
    next
      case (Return d)
      with True body w sl show ?thesis by (simp add: poll_loop.simps [of net s])
    next
      case (Abort f)
      with True body w sl show ?thesis by (simp add: poll_loop.simps [of net s])
    qed
  qed
qed

lemma poll_loop_waited_bound:
  "waited s \<le> MAX_POLL_TIME \<Longrightarrow> waited (snd (poll_loop net s)) < MAX_POLL_TIME + POLL_INTERVAL"
proof (induction net s rule: poll_loop.induct)
  case (1 net s)
  show ?case
  proof (cases "waited s < MAX_POLL_TIME")
    case False
    with "1.prems" show ?thesis by (simp add: poll_loop.simps [of net s] POLL_INTERVAL_def)
  next
    case True
    obtain c s1 where body: "poll_body (net (queries s)) s = (c, s1)"
      by (cases "poll_body (net (queries s)) s")
    have w: "waited s1 = waited s + POLL_INTERVAL"
      using poll_body_waited [of "net (queries s)" s] body by simp
    show ?thesis
    proof (cases c)
      case Continue
      from True body Continue have eq: "poll_loop net s = poll_loop net s1"
        by (simp add: poll_loop.simps [of net s])
      show ?thesis
      proof (cases "waited s1 \<le> MAX_POLL_TIME")
        case True
        with "1.IH" \<open>waited s < MAX_POLL_TIME\<close> body Continue eq show ?thesis by simp
      next
        case False
        then have "poll_loop net s1 = (Inl (SysExit 1), s1\<lparr>stderr := stderr s1 @ [ErrTimedOut MAX_POLL_TIME]\<rparr>)"
          by (simp add: poll_loop.simps [of net s1])
        with eq w \<open>waited s < MAX_POLL_TIME\<close> show ?thesis by simp
      qed
    next
      case (Return d)
      with True body w show ?thesis by (simp add: poll_loop.simps [of net s])
    next
      case (Abort f)
      with True body w show ?thesis by (simp add: poll_loop.simps [of net s])
    qed
  qed
qed





text \<open>
  C1. \<^verbatim>\<open>poll_status\<close> returns a snapshot only when it is the \<^verbatim>\<open>data\<close> of a status reply
  with HTTP status 200 whose \<^verbatim>\<open>status\<close> is 3 (\<^verbatim>\<open>STATUS_DONE\<close>); and whatever the
  replies are, the seconds it has slept in total when it returns or aborts do not
  exceed \<^verbatim>\<open>MAX_POLL_TIME + POLL_INTERVAL\<close>.
\<close>

theorem poll_status_success_only_done_and_wait_bounded:
  "(\<forall>data. fst (poll_status net production_uuid) = Inr data \<longrightarrow>
      (\<exists>i resp body d. net i = Response resp \<and> status_code resp = 200
          \<and> json_body resp = Some body \<and> py_get body ''data'' (JObj []) = Inr data
          \<and> data = JObj d \<and> dict_get d ''status'' JNull = JInt 3))
   \<and> slept (snd (poll_status net production_uuid)) \<le> MAX_POLL_TIME + POLL_INTERVAL"
proof (intro conjI allI impI)
  fix data
  assume "fst (poll_status net production_uuid) = Inr data"
  then have "poll_status net production_uuid = (Inr data, snd (poll_status net production_uuid))"
    by (metis prod.collapse)
  then show "\<exists>i resp body d. net i = Response resp \<and> status_code resp = 200
          \<and> json_body resp = Some body \<and> py_get body ''data'' (JObj []) = Inr data
          \<and> data = JObj d \<and> dict_get d ''status'' JNull = JInt 3"
    unfolding poll_status_def using poll_loop_Return [of net _ data] 
    by (simp add: STATUS_DONE_def)
next
  let ?s0 = "\<lparr>waited = 0, slept = 0, queries = 0, stderr = [Processing production_uuid]\<rparr>"
  have "slept (snd (poll_loop net ?s0)) = waited (snd (poll_loop net ?s0))"
    using poll_loop_slept [of net ?s0] by simp
  moreover have "waited (snd (poll_loop net ?s0)) < MAX_POLL_TIME + POLL_INTERVAL"
    by (rule poll_loop_waited_bound) simp
  ultimately show "slept (snd (poll_status net production_uuid)) \<le> MAX_POLL_TIME + POLL_INTERVAL"
    by (simp add: poll_status_def)
qed

lemma poll_status_done_reply:
  "poll_status (\<lambda>i. done_reply) (JStr ''u1'') =
     (Inr (JObj [(''status'', JInt 3), (''status_string'', JStr ''Done'')]),
      \<lparr>waited = 10, slept = 10, queries = 1,
       stderr = [Processing (JStr ''u1''), StatusLine (JStr ''Done'') 10]\<rparr>)"
  by (simp add: poll_status_def poll_loop.simps [of _ "\<lparr>waited = 0, slept = 0, queries = 0, stderr = [Processing (JStr ''u1'')]\<rparr>"] 
     poll_body_def done_reply_def json_response_def dict_get_def MAX_POLL_TIME_def
     POLL_INTERVAL_def STATUS_DONE_def)

theorem poll_status_success_only_done_and_wait_bounded_witness:
  "fst (poll_status (\<lambda>i. done_reply) (JStr ''u1'')) = Inr (JObj [(''status'', JInt 3), (''status_string'', JStr ''Done'')])
   \<and> dict_get [(''status'', JInt 3), (''status_string'', JStr ''Done'')] ''status'' JNull = JInt 3
   \<and> slept (snd (poll_status (\<lambda>i. done_reply) (JStr ''u1''))) = 10
   \<and> slept (snd (poll_status (\<lambda>i. done_reply) (JStr ''u1''))) \<le> MAX_POLL_TIME + POLL_INTERVAL"
  using poll_status_success_only_done_and_wait_bounded [of "\<lambda>i. done_reply" "JStr ''u1''"]
  by (simp add: poll_status_done_reply dict_get_def)





section \<open>The Submitter\<close>

text \<open>
  C8, as stated, fails: a reply with status 201 is a 2xx transport response, and its body
  encodes no application-level error, yet \<^verbatim>\<open>upload_and_start\<close> prints the error of
  line 130 and exits: its test is \<^verbatim>\<open>resp.status_code != 200\<close>.
\<close>

theorem upload_and_start_201_counterexample:
  "fst (upload_and_start (\<lambda>i. Response created_resp) ''a.mp3'') = Inl (SysExit 1)
   \<and> snd (upload_and_start (\<lambda>i. Response created_resp) ''a.mp3'')
       = \<lparr>posts = 1,
          submit_stderr = [Uploading ''a.mp3'', ErrApiReturned 201 (content created_resp)]\<rparr>
   \<and> \<not> spec_submit_fatal created_resp"
  by (simp add: upload_and_start_def created_resp_def json_response_def spec_submit_fatal_def
        spec_is_2xx_def encodes_app_error_def dict_get_def)

text \<open>
  C8, amended. \<^verbatim>\<open>upload_and_start\<close> sends exactly one request, and its outcome is that
  of this request alone (nothing is retried). It exits with \<^verbatim>\<open>sys.exit(1)\<close> exactly when
  the reply's status is not 200, or the decoded body is an object with a true
  \<^verbatim>\<open>error_code\<close>. It returns a value exactly when the status is 200 and the body is an
  object with no true \<^verbatim>\<open>error_code\<close> and with a \<^verbatim>\<open>data\<close> member, and then it returns
  that member. (What is left dies of an exception: no reply, or a body with status 200
  that does not decode, is no object or has no \<^verbatim>\<open>data\<close>.)
\<close>

theorem upload_and_start_outcome:
  "posts (snd (upload_and_start net file_name)) = 1
   \<and> upload_and_start net file_name = upload_and_start (\<lambda>i. net 0) file_name
   \<and> (fst (upload_and_start net file_name) = Inl (SysExit 1) \<longleftrightarrow>
        (\<exists>resp. net 0 = Response resp \<and> (status_code resp \<noteq> 200 \<or> encodes_app_error resp)))
   \<and> (\<forall>data. fst (upload_and_start net file_name) = Inr data \<longleftrightarrow>
        (\<exists>resp d. net 0 = Response resp \<and> status_code resp = 200
            \<and> json_body resp = Some (JObj d)
            \<and> \<not> truthy (dict_get d ''error_code'' JNull)
            \<and> map_of d ''data'' = Some data))"
proof (intro conjI allI)
  show "posts (snd (upload_and_start net file_name)) = 1"
    by (simp add: upload_and_start_def Let_def
          split: http_result.splits option.splits sum.splits)
  show "upload_and_start net file_name = upload_and_start (\<lambda>i. net 0) file_name"
    by (simp add: upload_and_start_def)
  show "fst (upload_and_start net file_name) = Inl (SysExit 1) \<longleftrightarrow>
        (\<exists>resp. net 0 = Response resp \<and> (status_code resp \<noteq> 200 \<or> encodes_app_error resp))"
  proof (cases "net 0")
    case ConnectionFailed
    then show ?thesis by (simp add: upload_and_start_def Let_def)
  next
    case (Response resp)
    show ?thesis
    proof (cases "json_body resp")
      case None
      with Response show ?thesis
        by (simp add: upload_and_start_def Let_def encodes_app_error_def)
    next
      case (Some body)
      with Response show ?thesis
        by (cases body)
           (auto simp: upload_and_start_def Let_def encodes_app_error_def split: option.splits)
    qed
  qed
  fix data
  show "fst (upload_and_start net file_name) = Inr data \<longleftrightarrow>
        (\<exists>resp d. net 0 = Response resp \<and> status_code resp = 200
            \<and> json_body resp = Some (JObj d)
            \<and> \<not> truthy (dict_get d ''error_code'' JNull)
            \<and> map_of d ''data'' = Some data)"
  proof (cases "net 0")
    case ConnectionFailed
    then show ?thesis by (simp add: upload_and_start_def Let_def)
  next
    case (Response resp)
    show ?thesis
    proof (cases "json_body resp")
      case None
      with Response show ?thesis
        by (simp add: upload_and_start_def Let_def)
    next
      case (Some body)
      with Response show ?thesis
        by (cases body)
           (auto simp: upload_and_start_def Let_def split: option.splits)
    qed
  qed
qed

theorem upload_and_start_outcome_witness:
  "fst (upload_and_start (\<lambda>i. Response started_resp) ''a.mp3'')
      = Inr (JObj [(''uuid'', JStr ''p1''), (''status'', JInt 0)])
   \<and> posts (snd (upload_and_start (\<lambda>i. Response started_resp) ''a.mp3'')) = 1
   \<and> fst (upload_and_start (\<lambda>i. Response created_resp) ''a.mp3'') = Inl (SysExit 1)"
proof -
  note started = upload_and_start_outcome [of "\<lambda>i. Response started_resp" "''a.mp3''"]
  note created = upload_and_start_outcome [of "\<lambda>i. Response created_resp" "''a.mp3''"]
  have "\<exists>resp d. Response started_resp = Response resp \<and> status_code resp = 200
            \<and> json_body resp = Some (JObj d)
            \<and> \<not> truthy (dict_get d ''error_code'' JNull)
            \<and> map_of d ''data'' = Some (JObj [(''uuid'', JStr ''p1''), (''status'', JInt 0)])"
    by (simp add: started_resp_def json_response_def dict_get_def)
  with started have 1: "fst (upload_and_start (\<lambda>i. Response started_resp) ''a.mp3'')
      = Inr (JObj [(''uuid'', JStr ''p1''), (''status'', JInt 0)])"
    by blast
  have "\<exists>resp. Response created_resp = Response resp
          \<and> (status_code resp \<noteq> 200 \<or> encodes_app_error resp)"
    by (simp add: created_resp_def json_response_def)
  with created have 2: "fst (upload_and_start (\<lambda>i. Response created_resp) ''a.mp3'') = Inl (SysExit 1)"
    by blast
  from started 1 2 show ?thesis by blast
qed

section \<open>The Downloader\<close>

lemma download_one_written:
  assumes "download_one relpath reply i artifact st = (r, st')"
  shows "written st' = written st
         \<or> (\<exists>d name resp. artifact = JObj d
               \<and> truthy (dict_get d ''download_url'' JNull)
               \<and> dict_get d ''filename'' JNull = JStr name
               \<and> \<not> fmt_denied (dict_get d ''format'' (JStr ''''))
               \<and> reply = Response resp \<and> status_code resp = 200
               \<and> written st' = written st @ [(i, name, content resp)])"
  using assms
  by (auto simp: download_one_def Let_def
        split: json.splits if_splits http_result.splits option.splits)

lemma download_one_downloaded:
  assumes "download_one relpath reply i artifact st = (r, st')"
  shows "length (downloaded st') \<le> Suc (length (downloaded st))"
  using assms
  by (auto simp: download_one_def Let_def
        split: json.splits if_splits http_result.splits option.splits)

lemma download_loop_written:
  assumes "download_loop relpath fetch i artifacts st = (r, st')"
    and "(j, name, bytes) \<in> set (written st')"
    and "(j, name, bytes) \<notin> set (written st)"
  shows "i \<le> j \<and> j < i + length artifacts
         \<and> (\<exists>d resp. artifacts ! (j - i) = JObj d
               \<and> truthy (dict_get d ''download_url'' JNull)
               \<and> dict_get d ''filename'' JNull = JStr name
               \<and> \<not> fmt_denied (dict_get d ''format'' (JStr ''''))
               \<and> fetch j = Response resp \<and> status_code resp = 200 \<and> bytes = content resp)"
  using assms
proof (induction artifacts arbitrary: i st)
  case Nil
  then show ?case by simp
next
  case (Cons a rest)
  obtain r1 st1 where one: "download_one relpath (fetch i) i a st = (r1, st1)"
    by (cases "download_one relpath (fetch i) i a st")
  show ?case
  proof (cases "(j, name, bytes) \<in> set (written st1)")
    case True
    with download_one_written [OF one] Cons.prems(3)
    have "j = i \<and> (\<exists>d resp. a = JObj d
               \<and> truthy (dict_get d ''download_url'' JNull)
               \<and> dict_get d ''filename'' JNull = JStr name
               \<and> \<not> fmt_denied (dict_get d ''format'' (JStr ''''))
               \<and> fetch i = Response resp \<and> status_code resp = 200 \<and> bytes = content resp)"
      by auto
    then show ?thesis by auto
  next
    case False
    with Cons.prems(1,2) one have r1: "r1 = None"
      by (cases r1) auto
    with Cons.prems(1) one have "download_loop relpath fetch (Suc i) rest st1 = (r, st')"
      by simp
    from Cons.IH [OF this Cons.prems(2) False]
    have "Suc i \<le> j \<and> j < Suc i + length rest
         \<and> (\<exists>d resp. rest ! (j - Suc i) = JObj d
               \<and> truthy (dict_get d ''download_url'' JNull)
               \<and> dict_get d ''filename'' JNull = JStr name
               \<and> \<not> fmt_denied (dict_get d ''format'' (JStr ''''))
               \<and> fetch j = Response resp \<and> status_code resp = 200 \<and> bytes = content resp)" .
    moreover from this have "j - i = Suc (j - Suc i)"
      by arith
    then have "(a # rest) ! (j - i) = rest ! (j - Suc i)"
      by simp
    ultimately show ?thesis by auto
  qed
qed

lemma download_loop_downloaded:
  assumes "download_loop relpath fetch i artifacts st = (r, st')"
  shows "length (downloaded st') \<le> length (downloaded st) + length artifacts"
  using assms
proof (induction artifacts arbitrary: i st)
  case Nil
  then show ?case by simp
next
  case (Cons a rest)
  obtain r1 st1 where one: "download_one relpath (fetch i) i a st = (r1, st1)"
    by (cases "download_one relpath (fetch i) i a st")
  note len1 = download_one_downloaded [OF one]
  show ?case
  proof (cases r1)
    case None
    with Cons.prems one have "download_loop relpath fetch (Suc i) rest st1 = (r, st')"
      by simp
    from Cons.IH [OF this] len1 show ?thesis by simp
  next
    case (Some f)
    with Cons.prems one have "st' = st1" by simp
    with len1 show ?thesis by simp
  qed
qed

lemma download_results_cases:
  obtains (raised) e where "download_results relpath fetch production_data
                              = (Inl (Raised e), \<lparr>downloaded = [], written = [], dl_stderr = []\<rparr>)"
      and "output_artifacts production_data = []"
  | (looped) r st where "download_loop relpath fetch 0 (output_artifacts production_data)
                              \<lparr>downloaded = [], written = [], dl_stderr = []\<rparr> = (r, st)"
      and "download_results relpath fetch production_data
             = (case r of Some f \<Rightarrow> Inl f | None \<Rightarrow> Inr (downloaded st), st)"
proof (cases "py_get production_data ''output_files'' (JArr [])")
  case (Inl e)
  then show ?thesis
    by (intro raised [of e]) (simp_all add: download_results_def output_artifacts_def)
next
  case (Inr output_files)
  show ?thesis
  proof (cases "py_iter output_files")
    case (Inl e)
    with Inr show ?thesis
      by (intro raised [of e]) (simp_all add: download_results_def output_artifacts_def)
  next
    case arts: (Inr artifacts)
    obtain r st where loop: "download_loop relpath fetch 0 artifacts
                              \<lparr>downloaded = [], written = [], dl_stderr = []\<rparr> = (r, st)"
      by (cases "download_loop relpath fetch 0 artifacts
                              \<lparr>downloaded = [], written = [], dl_stderr = []\<rparr>")
    with Inr arts show ?thesis
      by (intro looped [of r st])
         (simp_all add: download_results_def output_artifacts_def split: option.splits)
  qed
qed

text \<open>
  C3. Whatever the snapshot and the replies are, every file \<^verbatim>\<open>download_results\<close> writes
  was written for an output artifact whose format tag is not in the list of line 189
  (and under that artifact's file name, with the bytes of its reply of status 200); and
  when it returns, the list it returns is no longer than the list of output artifacts.
\<close>

theorem download_results_skips_aux_formats_and_is_bounded:
  "(\<forall>j name bytes.
      (j, name, bytes) \<in> set (written (snd (download_results relpath fetch production_data))) \<longrightarrow>
        j < length (output_artifacts production_data)
        \<and> \<not> fmt_denied (artifact_format (output_artifacts production_data ! j))
        \<and> py_get (output_artifacts production_data ! j) ''filename'' JNull = Inr (JStr name)
        \<and> (\<exists>resp. fetch j = Response resp \<and> status_code resp = 200 \<and> bytes = content resp))
   \<and> (\<forall>dls. fst (download_results relpath fetch production_data) = Inr dls \<longrightarrow>
         length dls \<le> length (output_artifacts production_data))"
proof (cases rule: download_results_cases [of relpath fetch production_data])
  case (raised e)
  then show ?thesis by simp
next
  case (looped r st)
  have "length (downloaded st) \<le> length (output_artifacts production_data)"
    using download_loop_downloaded [OF looped(1)] by simp
  moreover have "j < length (output_artifacts production_data)
        \<and> \<not> fmt_denied (artifact_format (output_artifacts production_data ! j))
        \<and> py_get (output_artifacts production_data ! j) ''filename'' JNull = Inr (JStr name)
        \<and> (\<exists>resp. fetch j = Response resp \<and> status_code resp = 200 \<and> bytes = content resp)"
    if "(j, name, bytes) \<in> set (written st)" for j name bytes
    using download_loop_written [OF looped(1) that] by (auto simp: artifact_format_def)
  ultimately show ?thesis
    using looped(2) by (auto split: option.splits)
qed

lemma download_results_succeeded_snapshot:
  "download_results rel_in_project (\<lambda>i. ok_download) succeeded_snapshot =
     (Inr [\<lparr>dl_filename = ''a.mp3'', dl_format = JStr ''mp3'', dl_size = JStr ''1.2 MB'',
            dl_path = ''projects/demo/audio/optimized/a.mp3''\<rparr>],
      \<lparr>downloaded = [\<lparr>dl_filename = ''a.mp3'', dl_format = JStr ''mp3'', dl_size = JStr ''1.2 MB'',
            dl_path = ''projects/demo/audio/optimized/a.mp3''\<rparr>],
       written = [(0, ''a.mp3'', ''ID3'')],
       dl_stderr = [Downloading (JStr ''a.mp3'')]\<rparr>)"
  by (simp add: download_results_def succeeded_snapshot_def audio_artifact_def
        waveform_artifact_def ok_download_def rel_in_project_def download_one_def
        dict_get_def fmt_denied_def aux_formats_def)

theorem download_results_skips_aux_formats_and_is_bounded_witness:
  "written (snd (download_results rel_in_project (\<lambda>i. ok_download) succeeded_snapshot))
      = [(0, ''a.mp3'', ''ID3'')]
   \<and> output_artifacts succeeded_snapshot = [audio_artifact, waveform_artifact]
   \<and> fmt_denied (artifact_format waveform_artifact)
   \<and> \<not> fmt_denied (artifact_format (output_artifacts succeeded_snapshot ! 0))
   \<and> length (downloaded (snd (download_results rel_in_project (\<lambda>i. ok_download) succeeded_snapshot)))
        \<le> length (output_artifacts succeeded_snapshot)"
proof -
  note inst = download_results_skips_aux_formats_and_is_bounded
                [of rel_in_project "\<lambda>i. ok_download" succeeded_snapshot]
  have w: "(0, ''a.mp3'', ''ID3'')
             \<in> set (written (snd (download_results rel_in_project (\<lambda>i. ok_download) succeeded_snapshot)))"
    by (simp add: download_results_succeeded_snapshot)
  have r: "fst (download_results rel_in_project (\<lambda>i. ok_download) succeeded_snapshot)
             = Inr (downloaded (snd (download_results rel_in_project (\<lambda>i. ok_download) succeeded_snapshot)))"
    by (simp add: download_results_succeeded_snapshot)
  from inst w have "\<not> fmt_denied (artifact_format (output_artifacts succeeded_snapshot ! 0))"
    by blast
  moreover from inst r
  have "length (downloaded (snd (download_results rel_in_project (\<lambda>i. ok_download) succeeded_snapshot)))
        \<le> length (output_artifacts succeeded_snapshot)"
    by blast
  moreover have "output_artifacts succeeded_snapshot = [audio_artifact, waveform_artifact]"
    by (simp add: output_artifacts_def succeeded_snapshot_def dict_get_def)
  moreover have "fmt_denied (artifact_format waveform_artifact)"
    by (simp add: artifact_format_def waveform_artifact_def dict_get_def fmt_denied_def aux_formats_def)
  ultimately show ?thesis
    by (simp add: download_results_succeeded_snapshot)
qed

text \<open>
  C10. An artifact whose descriptor has no \<^verbatim>\<open>download_url\<close> or no \<^verbatim>\<open>filename\<close> (or
  a false one: \<^verbatim>\<open>None\<close>, an empty string) is passed over whatever its format tag
  and whatever a request for it would give: the pass through the loop body leaves the
  files written, the list \<^verbatim>\<open>downloaded\<close> and the diagnostics as they were, and the loop
  goes on with the artifacts after it.
\<close>

theorem download_skips_artifact_without_locator_or_name:
  assumes "artifact = JObj d"
    and "\<not> truthy (dict_get d ''download_url'' JNull) \<or> \<not> truthy (dict_get d ''filename'' JNull)"
  shows "download_one relpath reply i artifact st = (None, st)
         \<and> download_loop relpath fetch i (artifact # rest) st
             = download_loop relpath fetch (Suc i) rest st"
proof -
  from assms have "download_one relpath reply i artifact st = (None, st)" for reply
    by (auto simp: download_one_def Let_def)
  then show ?thesis by simp
qed

theorem download_skips_artifact_without_locator_or_name_witness:
  "\<not> fmt_denied (artifact_format nameless_artifact)
   \<and> download_one rel_in_project ok_download 0 nameless_artifact
        \<lparr>downloaded = [], written = [], dl_stderr = []\<rparr>
       = (None, \<lparr>downloaded = [], written = [], dl_stderr = []\<rparr>)
   \<and> download_loop rel_in_project (\<lambda>i. ok_download) 0 [nameless_artifact, audio_artifact]
        \<lparr>downloaded = [], written = [], dl_stderr = []\<rparr>
       = download_loop rel_in_project (\<lambda>i. ok_download) 1 [audio_artifact]
        \<lparr>downloaded = [], written = [], dl_stderr = []\<rparr>"
proof -
  have "\<not> truthy (dict_get [(''download_url'', JStr ''https://auphonic.com/d/b.mp3''),
                              (''format'', JStr ''mp3'')] ''download_url'' JNull)
        \<or> \<not> truthy (dict_get [(''download_url'', JStr ''https://auphonic.com/d/b.mp3''),
                              (''format'', JStr ''mp3'')] ''filename'' JNull)"
    by (simp add: dict_get_def)
  from download_skips_artifact_without_locator_or_name
         [OF nameless_artifact_def this, of rel_in_project ok_download 0
            "\<lparr>downloaded = [], written = [], dl_stderr = []\<rparr>" "\<lambda>i. ok_download" "[audio_artifact]"]
  show ?thesis
    by (simp add: artifact_format_def nameless_artifact_def dict_get_def fmt_denied_def
          aux_formats_def)
qed

section \<open>The IndexReconciler\<close>

subsection \<open>Dicts\<close>

lemma map_of_dict_set: "map_of (dict_set d k v) = (map_of d)(k \<mapsto> v)"
  by (induction d) (auto simp: fun_eq_iff)

lemma dict_set_same_value: "map_of d k = Some v \<Longrightarrow> dict_set d k v = d"
  by (induction d) auto

lemma dict_set_twice: "dict_set (dict_set d k v) k v' = dict_set d k v'"
  by (induction d) auto

lemma dict_set_swap:
  "k \<noteq> k' \<Longrightarrow> has_key d k \<Longrightarrow>
     dict_set (dict_set d k v) k' v' = dict_set (dict_set d k' v') k v"
  unfolding has_key_def by (induction d) auto

lemma has_key_dict_set: "has_key (dict_set d k v) k' \<longleftrightarrow> k' = k \<or> has_key d k'"
  by (simp add: has_key_def map_of_dict_set)

lemma map_of_dict_setdefault:
  "map_of (dict_setdefault d k v) = (case map_of d k of None \<Rightarrow> (map_of d)(k \<mapsto> v) | Some w \<Rightarrow> map_of d)"
  by (simp add: dict_setdefault_def map_of_dict_set split: option.splits)

lemma dict_setdefault_present: "map_of d k = Some w \<Longrightarrow> dict_setdefault d k v = d"
  by (simp add: dict_setdefault_def)

lemma dict_get_dict_set: "dict_get (dict_set d k v) k' dflt = (if k' = k then v else dict_get d k' dflt)"
  by (simp add: dict_get_def map_of_dict_set)

subsection \<open>One entry\<close>

lemma map_of_entry_update:
  "map_of (entry_update today u dl e) fld =
     (if fld = ''origin'' then Some (origin_of u dl)
      else if fld = ''type'' then Some (JStr ''audio'')
      else if fld = ''added'' then Some (dict_get e ''added'' (JStr today))
      else if fld = ''description'' \<or> fld = ''notes''
           then Some (case map_of e fld of None \<Rightarrow> JStr '''' | Some v \<Rightarrow> v)
      else map_of e fld)"
  by (auto simp: entry_update_def Let_def map_of_dict_set map_of_dict_setdefault
        split: option.splits)

lemma entry_update_absorb:
  "entry_update t2 u dl2 (entry_update t1 u' dl1 e) = entry_update t1 u dl2 e"
proof -
  define e1 where "e1 = dict_set e ''added'' (dict_get e ''added'' (JStr t1))"
  define e2 where "e2 = dict_set e1 ''type'' (JStr ''audio'')"
  define e3 where "e3 = dict_setdefault e2 ''description'' (JStr '''')"
  define e4 where "e4 = dict_setdefault e3 ''notes'' (JStr '''')"
  define e5 where "e5 = dict_set e4 ''origin'' (origin_of u' dl1)"
  have first: "entry_update t1 u' dl1 e = e5"
    by (simp add: entry_update_def e1_def e2_def e3_def e4_def e5_def)
  have m: "map_of e5 ''added'' = Some (dict_get e ''added'' (JStr t1))"
      "map_of e5 ''type'' = Some (JStr ''audio'')"
      "map_of e5 ''description'' \<noteq> None" "map_of e5 ''notes'' \<noteq> None"
    unfolding first [symmetric] by (simp_all add: map_of_entry_update)
  have a: "dict_set e5 ''added'' (dict_get e5 ''added'' (JStr t2)) = e5"
    using m(1) by (simp add: dict_get_def dict_set_same_value)
  have b: "dict_set e5 ''type'' (JStr ''audio'') = e5"
    using m(2) by (simp add: dict_set_same_value)
  have c: "dict_setdefault e5 ''description'' (JStr '''') = e5"
    using m(3) by (auto simp: dict_setdefault_present)
  have d: "dict_setdefault e5 ''notes'' (JStr '''') = e5"
    using m(4) by (auto simp: dict_setdefault_present)
  have "entry_update t2 u dl2 e5 = dict_set e5 ''origin'' (origin_of u dl2)"
    by (simp add: entry_update_def a b c d)
  also have "\<dots> = dict_set e4 ''origin'' (origin_of u dl2)"
    by (simp add: e5_def dict_set_twice)
  also have "\<dots> = entry_update t1 u dl2 e"
    by (simp add: entry_update_def e1_def e2_def e3_def e4_def)
  finally show ?thesis by (simp add: first)
qed

lemma entry_update_today:
  "map_of e ''added'' \<noteq> None \<Longrightarrow> entry_update t2 u dl e = entry_update t1 u dl e"
  by (auto simp: entry_update_def dict_get_def)

subsection \<open>One step on the index\<close>

lemma put_entry_same_key:
  assumes "index_key od d = index_key od e"
  shows "put_entry t2 od u e (put_entry t1 od u' d z) = put_entry t1 od u e z"
  using assms
  by (simp add: put_entry_def dict_get_dict_set dict_set_twice entry_update_absorb)

lemma put_entry_swap:
  assumes "index_key od d \<noteq> index_key od e"
    and "has_key z (index_key od d) \<or> has_key z (index_key od e)"
  shows "put_entry t od u e (put_entry t' od u' d z) = put_entry t' od u' d (put_entry t od u e z)"
proof -
  define A where "A = JObj (entry_update t' u' d (dict_members (dict_get z (index_key od d) (JObj []))))"
  define B where "B = JObj (entry_update t u e (dict_members (dict_get z (index_key od e) (JObj []))))"
  from assms(1) have ne: "index_key od e \<noteq> index_key od d" by simp
  have l: "put_entry t od u e (put_entry t' od u' d z)
             = dict_set (dict_set z (index_key od d) A) (index_key od e) B"
    using ne by (simp add: put_entry_def dict_get_dict_set A_def B_def)
  have r: "put_entry t' od u' d (put_entry t od u e z)
             = dict_set (dict_set z (index_key od e) B) (index_key od d) A"
    using assms(1) by (simp add: put_entry_def dict_get_dict_set A_def B_def)
  from assms(2)
  have "dict_set (dict_set z (index_key od d) A) (index_key od e) B
          = dict_set (dict_set z (index_key od e) B) (index_key od d) A"
  proof
    assume "has_key z (index_key od d)"
    with assms(1) show ?thesis by (rule dict_set_swap)
  next
    assume "has_key z (index_key od e)"
    with ne show ?thesis by (rule dict_set_swap [symmetric])
  qed
  with l r show ?thesis by simp
qed

lemma put_entry_keeps_key:
  "has_key z k \<Longrightarrow> has_key (put_entry t od u d z) k"
  by (simp add: put_entry_def has_key_dict_set)

lemma put_entry_own_key: "has_key (put_entry t od u d z) (index_key od d)"
  by (simp add: put_entry_def has_key_dict_set)

lemma put_entries_Cons:
  "put_entries t od u (d # ds) z = put_entries t od u ds (put_entry t od u d z)"
  by (simp add: put_entries_def)

lemma put_entries_Nil: "put_entries t od u [] z = z"
  by (simp add: put_entries_def)

lemma put_entries_snoc:
  "put_entries t od u (ds @ [d]) z = put_entry t od u d (put_entries t od u ds z)"
  by (simp add: put_entries_def)

lemma put_entries_keeps_key:
  "has_key z k \<Longrightarrow> has_key (put_entries t od u ds z) k"
  by (induction ds arbitrary: z) (simp_all add: put_entries_Nil put_entries_Cons put_entry_keeps_key)

lemma put_entries_own_keys:
  "d \<in> set ds \<Longrightarrow> has_key (put_entries t od u ds z) (index_key od d)"
proof (induction ds arbitrary: z)
  case Nil
  then show ?case by simp
next
  case (Cons a ds)
  show ?case
  proof (cases "d = a")
    case True
    then show ?thesis
      by (simp add: put_entries_Cons put_entries_keeps_key put_entry_own_key)
  next
    case False
    with Cons show ?thesis by (simp add: put_entries_Cons)
  qed
qed

subsection \<open>Running the loop twice\<close>

lemma put_entries_absorb:
  assumes "\<exists>e \<in> set es. index_key od e = index_key od d"
    and "has_key z (index_key od d)"
  shows "put_entries t od u es (put_entry t od u d z) = put_entries t od u es z"
  using assms
proof (induction es arbitrary: z)
  case Nil
  then show ?case by simp
next
  case (Cons e es)
  show ?case
  proof (cases "index_key od e = index_key od d")
    case True
    then show ?thesis
      by (simp add: put_entries_Cons put_entry_same_key)
  next
    case False
    with Cons.prems(1) have later: "\<exists>e \<in> set es. index_key od e = index_key od d"
      by auto
    from False Cons.prems(2)
    have "put_entry t od u e (put_entry t od u d z) = put_entry t od u d (put_entry t od u e z)"
      by (intro put_entry_swap) auto
    moreover have "has_key (put_entry t od u e z) (index_key od d)"
      using Cons.prems(2) by (rule put_entry_keeps_key)
    ultimately show ?thesis
      using Cons.IH [OF later] by (simp add: put_entries_Cons)
  qed
qed

lemma put_entries_commute:
  assumes "\<forall>e \<in> set es. index_key od e \<noteq> index_key od d \<and> has_key z (index_key od e)"
  shows "put_entries t od u es (put_entry t od u d z) = put_entry t od u d (put_entries t od u es z)"
  using assms
proof (induction es arbitrary: z)
  case Nil
  then show ?case by (simp add: put_entries_Nil)
next
  case (Cons e es)
  from Cons.prems
  have "put_entry t od u e (put_entry t od u d z) = put_entry t od u d (put_entry t od u e z)"
    by (intro put_entry_swap) auto
  moreover from Cons.prems
  have "\<forall>e' \<in> set es. index_key od e' \<noteq> index_key od d
          \<and> has_key (put_entry t od u e z) (index_key od e')"
    by (simp add: put_entry_keeps_key)
  ultimately show ?case
    using Cons.IH by (simp add: put_entries_Cons)
qed

lemma put_entries_idem:
  "put_entries t od u ds (put_entries t od u ds x) = put_entries t od u ds x"
proof (induction ds arbitrary: x rule: rev_induct)
  case Nil
  then show ?case by (simp add: put_entries_Nil)
next
  case (snoc d ds)
  define w where "w = put_entries t od u ds x"
  have IH: "put_entries t od u ds w = w"
    unfolding w_def by (rule snoc.IH)
  have keys: "\<forall>e \<in> set ds. has_key w (index_key od e)"
    unfolding w_def by (simp add: put_entries_own_keys)
  have "put_entry t od u d (put_entries t od u ds (put_entry t od u d w)) = put_entry t od u d w"
  proof (cases "\<exists>e \<in> set ds. index_key od e = index_key od d")
    case True
    with keys have "has_key w (index_key od d)" by metis
    with True have "put_entries t od u ds (put_entry t od u d w) = put_entries t od u ds w"
      by (rule put_entries_absorb)
    with IH show ?thesis by simp
  next
    case False
    with keys have "put_entries t od u ds (put_entry t od u d w)
                      = put_entry t od u d (put_entries t od u ds w)"
      by (intro put_entries_commute) auto
    with IH show ?thesis by (simp add: put_entry_same_key)
  qed
  then show ?case by (simp add: put_entries_snoc w_def)
qed

subsection \<open>The date of the second run\<close>

lemma has_added_iff:
  "has_added z k \<longleftrightarrow> (\<exists>e. map_of z k = Some (JObj e) \<and> map_of e ''added'' \<noteq> None)"
  by (auto simp: has_added_def has_key_def split: option.splits json.splits)

lemma has_added_put_entry_own: "has_added (put_entry t od u d z) (index_key od d)"
  by (simp add: has_added_iff put_entry_def map_of_dict_set map_of_entry_update)

lemma has_added_put_entry: "has_added z k \<Longrightarrow> has_added (put_entry t od u d z) k"
  by (cases "k = index_key od d")
     (auto simp: has_added_put_entry_own, simp add: has_added_iff put_entry_def map_of_dict_set)

lemma has_added_put_entries: "has_added z k \<Longrightarrow> has_added (put_entries t od u ds z) k"
  by (induction ds arbitrary: z) (simp_all add: put_entries_Nil put_entries_Cons has_added_put_entry)

lemma has_added_put_entries_own:
  "d \<in> set ds \<Longrightarrow> has_added (put_entries t od u ds z) (index_key od d)"
proof (induction ds arbitrary: z)
  case Nil
  then show ?case by simp
next
  case (Cons a ds)
  show ?case
  proof (cases "d = a")
    case True
    then show ?thesis
      by (simp add: put_entries_Cons has_added_put_entries has_added_put_entry_own)
  next
    case False
    with Cons show ?thesis by (simp add: put_entries_Cons)
  qed
qed

lemma put_entry_today:
  assumes "has_added z (index_key od d)"
  shows "put_entry t2 od u d z = put_entry t1 od u d z"
proof -
  from assms obtain e where "map_of z (index_key od d) = Some (JObj e)" "map_of e ''added'' \<noteq> None"
    by (auto simp: has_added_iff)
  then show ?thesis
    by (simp add: put_entry_def dict_get_def entry_update_today [of e t2 u d t1])
qed

lemma put_entries_today:
  assumes "\<forall>d \<in> set ds. has_added z (index_key od d)"
  shows "put_entries t2 od u ds z = put_entries t1 od u ds z"
  using assms
proof (induction ds arbitrary: z)
  case Nil
  then show ?case by (simp add: put_entries_Nil)
next
  case (Cons d ds)
  from Cons.prems have "put_entry t2 od u d z = put_entry t1 od u d z"
    by (simp add: put_entry_today)
  moreover from Cons.prems have "\<forall>d' \<in> set ds. has_added (put_entry t1 od u d z) (index_key od d')"
    by (simp add: has_added_put_entry)
  ultimately show ?case
    using Cons.IH by (simp add: put_entries_Cons)
qed

lemma put_entries_twice:
  "put_entries t2 od u ds (put_entries t1 od u ds x) = put_entries t1 od u ds x"
proof -
  have "put_entries t2 od u ds (put_entries t1 od u ds x)
          = put_entries t1 od u ds (put_entries t1 od u ds x)"
    by (rule put_entries_today) (simp add: has_added_put_entries_own)
  then show ?thesis by (simp add: put_entries_idem)
qed

subsection \<open>The loop and its exceptions\<close>

lemma is_dict_iff: "is_dict j \<longleftrightarrow> (\<exists>d. j = JObj d)"
  by (cases j) auto

lemma index_step_dict:
  "index_step t od u (JObj idx) d =
     (if is_dict (dict_get idx (index_key od d) (JObj []))
      then Inr (JObj (put_entry t od u d idx)) else Inl AttributeError)"
  by (cases "dict_get idx (index_key od d) (JObj [])")
     (simp_all add: index_step_def put_entry_def)

lemma is_dict_put_entry:
  assumes "is_dict (dict_get idx (index_key od d) (JObj []))"
  shows "is_dict (dict_get (put_entry t od u d idx) k (JObj [])) = is_dict (dict_get idx k (JObj []))"
  using assms by (simp add: put_entry_def dict_get_dict_set)

lemma index_loop_dict:
  "index_loop t od u (JObj idx) ds =
     (if \<forall>d \<in> set ds. is_dict (dict_get idx (index_key od d) (JObj []))
      then Inr (JObj (put_entries t od u ds idx)) else Inl AttributeError)"
proof (induction ds arbitrary: idx)
  case Nil
  then show ?case by (simp add: put_entries_Nil)
next
  case (Cons d ds)
  show ?case
  proof (cases "is_dict (dict_get idx (index_key od d) (JObj []))")
    case True
    then show ?thesis
      by (simp add: index_step_dict Cons.IH is_dict_put_entry put_entries_Cons)
  next
    case False
    then show ?thesis by (simp add: index_step_dict)
  qed
qed

lemma index_loop_no_dict:
  "\<not> is_dict j \<Longrightarrow> index_loop t od u j ds = (if ds = [] then Inr j else Inl AttributeError)"
  by (cases ds; cases j) (simp_all add: index_step_def)

lemma is_dict_put_entries_own:
  "d \<in> set ds \<Longrightarrow> is_dict (dict_get (put_entries t od u ds z) (index_key od d) (JObj []))"
  using has_added_put_entries_own [of d ds t od u z]
  by (auto simp: has_added_iff dict_get_def)

lemma index_loop_twice:
  assumes "index_loop t1 od u j ds = Inr j1"
  shows "index_loop t2 od u j1 ds = Inr j1"
proof (cases j)
  case (JObj idx)
  with assms have j1: "j1 = JObj (put_entries t1 od u ds idx)"
    by (simp add: index_loop_dict split: if_splits)
  show ?thesis
    unfolding j1 by (simp add: index_loop_dict is_dict_put_entries_own put_entries_twice)
qed (use assms in \<open>auto simp: index_loop_no_dict split: if_splits\<close>)

lemma index_loop_fails_whatever_the_date:
  "index_loop t1 od u j ds = Inl e \<Longrightarrow> index_loop t2 od u j ds = Inl e"
  by (cases j) (auto simp: index_loop_no_dict index_loop_dict split: if_splits)

lemma update_index_twice:
  "snd (update_index t2 od ds u (snd (update_index t1 od ds u ifile)))
     = snd (update_index t1 od ds u ifile)"
proof (cases ifile)
  case NoFile
  show ?thesis
  proof (cases "index_loop t1 od u (JObj []) ds")
    case (Inl e)
    with NoFile index_loop_fails_whatever_the_date [OF Inl, of t2] show ?thesis
      by (simp add: update_index_def)
  next
    case (Inr j1)
    with NoFile index_loop_twice [OF Inr, of t2] show ?thesis
      by (simp add: update_index_def)
  qed
next
  case Undecodable
  then show ?thesis by (simp add: update_index_def)
next
  case (Holds j)
  show ?thesis
  proof (cases "index_loop t1 od u j ds")
    case (Inl e)
    with Holds index_loop_fails_whatever_the_date [OF Inl, of t2] show ?thesis
      by (simp add: update_index_def)
  next
    case (Inr j1)
    with Holds index_loop_twice [OF Inr, of t2] show ?thesis
      by (simp add: update_index_def)
  qed
qed

subsection \<open>What a run keeps\<close>

lemma put_entry_keeps_member:
  assumes "map_of z k = Some (JObj e)" and "map_of e fld = Some v"
    and "fld \<noteq> ''type''" and "fld \<noteq> ''origin''"
  shows "\<exists>e'. map_of (put_entry t od u d z) k = Some (JObj e') \<and> map_of e' fld = Some v"
proof (cases "k = index_key od d")
  case True
  define e' where "e' = entry_update t u d e"
  from True assms(1) have entry: "map_of (put_entry t od u d z) k = Some (JObj e')"
    by (simp add: put_entry_def map_of_dict_set dict_get_def e'_def)
  have "map_of e' fld = Some v"
  proof (cases "fld = ''added''")
    case True
    with assms(2) show ?thesis
      by (simp add: e'_def map_of_entry_update dict_get_def)
  next
    case False
    with assms(2-4) show ?thesis
      by (simp add: e'_def map_of_entry_update)
  qed
  with entry show ?thesis by simp
next
  case False
  with assms show ?thesis
    by (simp add: put_entry_def map_of_dict_set)
qed

lemma put_entries_keeps_member:
  assumes "map_of z k = Some (JObj e)" and "map_of e fld = Some v"
    and "fld \<noteq> ''type''" and "fld \<noteq> ''origin''"
  shows "\<exists>e'. map_of (put_entries t od u ds z) k = Some (JObj e') \<and> map_of e' fld = Some v"
  using assms(1,2)
proof (induction ds arbitrary: z e)
  case Nil
  then show ?case by (simp add: put_entries_Nil)
next
  case (Cons d ds)
  from put_entry_keeps_member [OF Cons.prems assms(3,4)]
  obtain e' where "map_of (put_entry t od u d z) k = Some (JObj e')" "map_of e' fld = Some v"
    by blast
  from Cons.IH [OF this] show ?case by (simp add: put_entries_Cons)
qed

lemma added_or_put_entry: "added_or t (put_entry t od u d z) k = added_or t z k"
  by (simp add: added_or_def put_entry_def dict_get_dict_set)
     (simp add: dict_get_def map_of_entry_update)

lemma added_or_put_entries: "added_or t (put_entries t od u ds z) k = added_or t z k"
  by (induction ds arbitrary: z) (simp_all add: put_entries_Nil put_entries_Cons added_or_put_entry)

lemma put_entries_added:
  assumes "d \<in> set ds"
  shows "\<exists>e'. map_of (put_entries t od u ds z) (index_key od d) = Some (JObj e')
              \<and> map_of e' ''added'' = Some (added_or t z (index_key od d))"
proof -
  from has_added_put_entries_own [OF assms, of t od u z]
  obtain e' a where e': "map_of (put_entries t od u ds z) (index_key od d) = Some (JObj e')"
    and a: "map_of e' ''added'' = Some a"
    by (auto simp: has_added_iff)
  then have "added_or t (put_entries t od u ds z) (index_key od d) = a"
    by (simp add: added_or_def dict_get_def)
  with e' a show ?thesis by (simp add: added_or_put_entries)
qed

text \<open>
  C2. Two runs of \<^verbatim>\<open>update_index\<close> with the same downloaded files, output directory
  and production, on any days \<open>t1\<close> and \<open>t2\<close>, leave the index file that the first run
  alone leaves (also when the index file makes the run die, which leaves it untouched).
  A \<^verbatim>\<open>description\<close>, \<^verbatim>\<open>notes\<close> or \<^verbatim>\<open>added\<close> member that an entry of the prior index
  has is in the index after the first run, and so after the second, with the same value.
  And where a run that completes has processed a file whose entry had no \<^verbatim>\<open>added\<close>
  member, or no entry, the member is the day of the first run.
\<close>

theorem update_index_idempotent_and_preserving:
  "snd (update_index t2 od ds u (snd (update_index t1 od ds u ifile)))
     = snd (update_index t1 od ds u ifile)
   \<and> (ifile = Holds (JObj idx) \<and> map_of idx k = Some (JObj e)
        \<and> fld \<in> {''description'', ''notes'', ''added''} \<and> map_of e fld = Some v \<longrightarrow>
          (\<exists>idx1 e1. snd (update_index t1 od ds u ifile) = Holds (JObj idx1)
              \<and> map_of idx1 k = Some (JObj e1) \<and> map_of e1 fld = Some v))
   \<and> (d \<in> set ds \<and> fst (update_index t1 od ds u ifile) = None
        \<and> (ifile = NoFile \<and> idx' = [] \<or> ifile = Holds (JObj idx'))
        \<and> \<not> has_key (dict_members (dict_get idx' (index_key od d) (JObj []))) ''added'' \<longrightarrow>
          (\<exists>idx1 e1. snd (update_index t1 od ds u ifile) = Holds (JObj idx1)
              \<and> map_of idx1 (index_key od d) = Some (JObj e1)
              \<and> map_of e1 ''added'' = Some (JStr t1)))"
proof (intro conjI impI)
  show "snd (update_index t2 od ds u (snd (update_index t1 od ds u ifile)))
          = snd (update_index t1 od ds u ifile)"
    by (rule update_index_twice)
next
  assume a: "ifile = Holds (JObj idx) \<and> map_of idx k = Some (JObj e)
        \<and> fld \<in> {''description'', ''notes'', ''added''} \<and> map_of e fld = Some v"
  then have fld: "fld \<noteq> ''type''" "fld \<noteq> ''origin''" by auto
  from a have "\<exists>e'. map_of (put_entries t1 od u ds idx) k = Some (JObj e') \<and> map_of e' fld = Some v"
    using put_entries_keeps_member [OF _ _ fld] by blast
  with a show "\<exists>idx1 e1. snd (update_index t1 od ds u ifile) = Holds (JObj idx1)
              \<and> map_of idx1 k = Some (JObj e1) \<and> map_of e1 fld = Some v"
    by (auto simp: update_index_def index_loop_dict)
next
  assume a: "d \<in> set ds \<and> fst (update_index t1 od ds u ifile) = None
        \<and> (ifile = NoFile \<and> idx' = [] \<or> ifile = Holds (JObj idx'))
        \<and> \<not> has_key (dict_members (dict_get idx' (index_key od d) (JObj []))) ''added''"
  then have d: "d \<in> set ds" by simp
  from a have "added_or t1 idx' (index_key od d) = JStr t1"
    by (simp add: added_or_def dict_get_def has_key_def)
  with put_entries_added [OF d, of t1 od u idx']
  obtain e' where e': "map_of (put_entries t1 od u ds idx') (index_key od d) = Some (JObj e')"
      "map_of e' ''added'' = Some (JStr t1)"
    by auto
  from a have "snd (update_index t1 od ds u ifile) = Holds (JObj (put_entries t1 od u ds idx'))"
    by (auto simp: update_index_def index_loop_dict split: if_splits)
  with e' show "\<exists>idx1 e1. snd (update_index t1 od ds u ifile) = Holds (JObj idx1)
              \<and> map_of idx1 (index_key od d) = Some (JObj e1)
              \<and> map_of e1 ''added'' = Some (JStr t1)"
    by simp
qed

lemma update_index_prior_index:
  "update_index ''2026-03-01'' ''audio/optimized'' two_downloads (JStr ''p1'') prior_index
     = (None, merged_index)"
  by (simp add: update_index_def prior_index_def two_downloads_def merged_index_def
        index_step_def index_key_def entry_update_def origin_of_def dict_get_def
        dict_setdefault_def)

theorem update_index_idempotent_and_preserving_witness:
  "snd (update_index ''2026-03-01'' ''audio/optimized'' two_downloads (JStr ''p1'') prior_index)
     = merged_index
   \<and> snd (update_index ''2026-04-15'' ''audio/optimized'' two_downloads (JStr ''p1'') merged_index)
     = merged_index
   \<and> (\<exists>idx1 e1. merged_index = Holds (JObj idx1)
          \<and> map_of idx1 ''audio/optimized/a.mp3'' = Some (JObj e1)
          \<and> map_of e1 ''description'' = Some (JStr ''Final mix''))
   \<and> (\<exists>idx1 e1. merged_index = Holds (JObj idx1)
          \<and> map_of idx1 ''audio/optimized/a.flac'' = Some (JObj e1)
          \<and> map_of e1 ''added'' = Some (JStr ''2026-03-01''))"
proof -
  let ?mp3 = "[(''added'', JStr ''2026-01-05''), (''type'', JStr ''audio''),
             (''description'', JStr ''Final mix''), (''notes'', JStr ''keep'')]"
  let ?idx = "[(''audio/optimized/a.mp3'', JObj ?mp3)]"
  let ?flac = "\<lparr>dl_filename = ''a.flac'', dl_format = JStr ''flac'', dl_size = JStr ''9 MB'',
       dl_path = ''projects/demo/audio/optimized/a.flac''\<rparr>"
  note inst = update_index_idempotent_and_preserving
      [where ?t1.0 = "''2026-03-01''" and ?t2.0 = "''2026-04-15''" and od = "''audio/optimized''"
         and ds = two_downloads and u = "JStr ''p1''" and ifile = prior_index
         and idx = ?idx and k = "''audio/optimized/a.mp3''" and e = ?mp3
         and fld = "''description''" and v = "JStr ''Final mix''"
         and d = ?flac and idx' = ?idx]
  have run: "update_index ''2026-03-01'' ''audio/optimized'' two_downloads (JStr ''p1'') prior_index
               = (None, merged_index)"
    by (rule update_index_prior_index)
  have keep_hyp: "prior_index = Holds (JObj ?idx)
        \<and> map_of ?idx ''audio/optimized/a.mp3'' = Some (JObj ?mp3)
        \<and> ''description'' \<in> {''description'', ''notes'', ''added''}
        \<and> map_of ?mp3 ''description'' = Some (JStr ''Final mix'')"
    by (simp add: prior_index_def)
  have new_hyp: "?flac \<in> set two_downloads
        \<and> fst (update_index ''2026-03-01'' ''audio/optimized'' two_downloads (JStr ''p1'') prior_index) = None
        \<and> (prior_index = NoFile \<and> ?idx = [] \<or> prior_index = Holds (JObj ?idx))
        \<and> \<not> has_key (dict_members (dict_get ?idx (index_key ''audio/optimized'' ?flac) (JObj []))) ''added''"
  proof (intro conjI)
    show "?flac \<in> set two_downloads"
      by (simp add: two_downloads_def)
    show "fst (update_index ''2026-03-01'' ''audio/optimized'' two_downloads (JStr ''p1'') prior_index) = None"
      by (simp add: run)
    show "prior_index = NoFile \<and> ?idx = [] \<or> prior_index = Holds (JObj ?idx)"
      by (simp add: prior_index_def)
    show "\<not> has_key (dict_members (dict_get ?idx (index_key ''audio/optimized'' ?flac) (JObj []))) ''added''"
      by (simp add: index_key_def dict_get_def has_key_def)
  qed
  from inst have 1: "snd (update_index ''2026-04-15'' ''audio/optimized'' two_downloads (JStr ''p1'')
                       (snd (update_index ''2026-03-01'' ''audio/optimized'' two_downloads (JStr ''p1'') prior_index)))
                 = snd (update_index ''2026-03-01'' ''audio/optimized'' two_downloads (JStr ''p1'') prior_index)"
    by (rule conjunct1)
  from inst keep_hyp
  have 2: "\<exists>idx1 e1. snd (update_index ''2026-03-01'' ''audio/optimized'' two_downloads (JStr ''p1'') prior_index)
                 = Holds (JObj idx1)
              \<and> map_of idx1 ''audio/optimized/a.mp3'' = Some (JObj e1)
              \<and> map_of e1 ''description'' = Some (JStr ''Final mix'')"
    by (rule conjunct2 [THEN conjunct1, THEN mp])
  from inst new_hyp
  have 3: "\<exists>idx1 e1. snd (update_index ''2026-03-01'' ''audio/optimized'' two_downloads (JStr ''p1'') prior_index)
                 = Holds (JObj idx1)
              \<and> map_of idx1 (index_key ''audio/optimized'' ?flac) = Some (JObj e1)
              \<and> map_of e1 ''added'' = Some (JStr ''2026-03-01'')"
    by (rule conjunct2 [THEN conjunct2, THEN mp])
  from 1 2 3 show ?thesis
    by (simp add: run index_key_def)
qed

section \<open>The StatsExtractor\<close>

lemma keys_dict_set: "fst ` set (dict_set d k v) = insert k (fst ` set d)"
  by (induction d) auto

lemma distinct_dict_set: "distinct (map fst d) \<Longrightarrow> distinct (map fst (dict_set d k v))"
proof (induction d)
  case Nil
  then show ?case by simp
next
  case (Cons p d)
  then show ?case
    by (cases "fst p = k") (simp_all add: keys_dict_set)
qed

lemma is_pair_iff: "is_pair v \<longleftrightarrow> (\<exists>a b. v = JArr [a, b])"
  by (induction v rule: is_pair.induct) auto

lemma level_entry_pair:
  assumes "pair_or_absent side field"
  shows "\<exists>r. level_entry str_of (JObj side) field key result = Inr r
             \<and> set (map fst r) = (if has_key side field then {key} else {}) \<union> set (map fst result)
             \<and> (distinct (map fst result) \<longrightarrow> distinct (map fst r))"
proof (cases "map_of side field")
  case None
  then show ?thesis
    by (simp add: level_entry_def dict_get_def has_key_def)
next
  case (Some v)
  with assms obtain a b where "v = JArr [a, b]"
    by (auto simp: pair_or_absent_def is_pair_iff)
  with Some show ?thesis
    by (simp add: level_entry_def dict_get_def has_key_def keys_dict_set distinct_dict_set)
qed

lemma cut_entry_cut:
  assumes "is_cut c"
  shows "\<exists>r. cut_entry str_of c result = Inr r
             \<and> set (map fst r) = insert (''cuts_'' @ str_of (cut_name c)) (set (map fst result))
             \<and> (distinct (map fst result) \<longrightarrow> distinct (map fst r))"
proof -
  from assms obtain m where c: "c = JObj m"
    by (cases c) auto
  with assms obtain n k p where "map_of m ''name'' = Some n" "map_of m ''count'' = Some k"
      "map_of m ''percent'' = Some p"
    by (auto simp: has_key_def)
  with c show ?thesis
    by (simp add: cut_entry_def cut_name_def dict_get_def keys_dict_set distinct_dict_set)
qed

lemma cuts_loop_cuts:
  assumes "list_all is_cut cs"
  shows "\<exists>r. cuts_loop str_of cs result = Inr r
             \<and> set (map fst r) = (\<lambda>c. ''cuts_'' @ str_of (cut_name c)) ` set cs \<union> set (map fst result)
             \<and> (distinct (map fst result) \<longrightarrow> distinct (map fst r))"
  using assms
proof (induction cs arbitrary: result)
  case Nil
  then show ?case by simp
next
  case (Cons c cs)
  then have "is_cut c" and rest: "list_all is_cut cs" by simp_all
  from cut_entry_cut [OF \<open>is_cut c\<close>, of str_of result]
  obtain r1 where r1: "cut_entry str_of c result = Inr r1"
      "set (map fst r1) = insert (''cuts_'' @ str_of (cut_name c)) (set (map fst result))"
      "distinct (map fst result) \<longrightarrow> distinct (map fst r1)"
    by blast
  from Cons.IH [OF rest, of r1]
  obtain r where "cuts_loop str_of cs r1 = Inr r"
      "set (map fst r) = (\<lambda>c. ''cuts_'' @ str_of (cut_name c)) ` set cs \<union> set (map fst r1)"
      "distinct (map fst r1) \<longrightarrow> distinct (map fst r)"
    by blast
  with r1 show ?case by auto
qed

lemma level_entries_full:
  assumes "full_statistics levels inp out cuts"
  shows "\<exists>r. level_entries str_of (JObj levels) = Inr r
             \<and> set (map fst r) = set (level_keys inp out)
             \<and> distinct (map fst r)"
proof -
  from assms have io: "dict_get levels ''input'' (JObj []) = JObj inp"
      "dict_get levels ''output'' (JObj []) = JObj out"
    and p: "pair_or_absent inp ''loudness''" "pair_or_absent inp ''snr''"
      "pair_or_absent out ''loudness''" "pair_or_absent out ''peak''"
    by (simp_all add: full_statistics_def)
  from level_entry_pair [OF p(1), of str_of "''input_loudness''" "[]"]
  obtain r1 where r1: "level_entry str_of (JObj inp) ''loudness'' ''input_loudness'' [] = Inr r1"
      "set (map fst r1) = (if has_key inp ''loudness'' then {''input_loudness''} else {})"
      "distinct (map fst r1)"
    by auto
  from level_entry_pair [OF p(2), of str_of "''input_snr''" r1]
  obtain r2 where r2: "level_entry str_of (JObj inp) ''snr'' ''input_snr'' r1 = Inr r2"
      "set (map fst r2) = (if has_key inp ''snr'' then {''input_snr''} else {}) \<union> set (map fst r1)"
      "distinct (map fst r2)"
    using r1(3) by auto
  from level_entry_pair [OF p(3), of str_of "''output_loudness''" r2]
  obtain r3 where r3: "level_entry str_of (JObj out) ''loudness'' ''output_loudness'' r2 = Inr r3"
      "set (map fst r3) = (if has_key out ''loudness'' then {''output_loudness''} else {}) \<union> set (map fst r2)"
      "distinct (map fst r3)"
    using r2(3) by auto
  from level_entry_pair [OF p(4), of str_of "''output_peak''" r3]
  obtain r4 where r4: "level_entry str_of (JObj out) ''peak'' ''output_peak'' r3 = Inr r4"
      "set (map fst r4) = (if has_key out ''peak'' then {''output_peak''} else {}) \<union> set (map fst r3)"
      "distinct (map fst r4)"
    using r3(3) by auto
  have run: "level_entries str_of (JObj levels) = Inr r4"
    by (simp add: level_entries_def io r1(1) r2(1) r3(1) r4(1))
  have "set (map fst r4) = set (level_keys inp out)"
    unfolding r4(2) r3(2) r2(2) r1(2) level_keys_def by auto
  with run r4(3) show ?thesis by blast
qed

lemma extract_stats_never_empty: "extract_stats str_of production_data \<noteq> Inr (Some [])"
  by (simp add: extract_stats_def split: sum.splits)

text \<open>
  C7. \<^verbatim>\<open>extract_stats\<close> returns \<^verbatim>\<open>None\<close> when the statistics have no \<^verbatim>\<open>levels\<close> member;
  it never returns an empty dict; and on statistics of the data model's shape it returns
  (\<^verbatim>\<open>None\<close> in place of an empty dict) a dict whose keys are pairwise different and are
  exactly the keys of the members that \<^verbatim>\<open>levels.input\<close> (loudness, snr) and
  \<^verbatim>\<open>levels.output\<close> (loudness, peak) have, and \<^verbatim>\<open>cuts_\<close> followed by its name for every
  listed cut. With no such member and no cut the result is therefore \<^verbatim>\<open>None\<close>.
\<close>

theorem extract_stats_absent_or_one_entry_each:
  "(\<forall>pd stats.
       production_data = JObj pd \<and> dict_get pd ''statistics'' (JObj []) = JObj stats
       \<and> \<not> has_key stats ''levels'' \<longrightarrow>
         extract_stats str_of production_data = Inr None)
   \<and> extract_stats str_of production_data \<noteq> Inr (Some [])
   \<and> (\<forall>pd stats levels inp out cuts.
         production_data = JObj pd \<and> dict_get pd ''statistics'' (JObj []) = JObj stats
         \<and> dict_get stats ''levels'' JNull = JObj levels
         \<and> dict_get stats ''cuts'' (JArr []) = JArr cuts
         \<and> full_statistics levels inp out cuts \<longrightarrow>
           (\<exists>r. extract_stats str_of production_data = Inr (if r = [] then None else Some r)
               \<and> distinct (map fst r)
               \<and> set (map fst r) = set (level_keys inp out)
                     \<union> (\<lambda>c. ''cuts_'' @ str_of (cut_name c)) ` set cuts))"
proof (intro conjI allI impI)
  fix pd stats
  assume "production_data = JObj pd \<and> dict_get pd ''statistics'' (JObj []) = JObj stats
       \<and> \<not> has_key stats ''levels''"
  then show "extract_stats str_of production_data = Inr None"
    by (simp add: extract_stats_def dict_get_def has_key_def)
next
  show "extract_stats str_of production_data \<noteq> Inr (Some [])"
    by (rule extract_stats_never_empty)
next
  fix pd stats levels inp out cuts
  assume a: "production_data = JObj pd \<and> dict_get pd ''statistics'' (JObj []) = JObj stats
         \<and> dict_get stats ''levels'' JNull = JObj levels
         \<and> dict_get stats ''cuts'' (JArr []) = JArr cuts
         \<and> full_statistics levels inp out cuts"
  then have full: "full_statistics levels inp out cuts" by simp
  then have levels: "truthy (JObj levels)" and cuts: "list_all is_cut cuts"
    by (simp_all add: full_statistics_def)
  from level_entries_full [OF full, of str_of]
  obtain r4 where r4: "level_entries str_of (JObj levels) = Inr r4"
      "set (map fst r4) = set (level_keys inp out)" "distinct (map fst r4)"
    by blast
  from cuts_loop_cuts [OF cuts, of str_of r4]
  obtain r where r: "cuts_loop str_of cuts r4 = Inr r"
      "set (map fst r) = (\<lambda>c. ''cuts_'' @ str_of (cut_name c)) ` set cuts \<union> set (map fst r4)"
      "distinct (map fst r)"
    using r4(3) by blast
  have "cuts_entries str_of (dict_get stats ''cuts'' JNull) r4 = Inr r"
  proof (cases "map_of stats ''cuts''")
    case None
    with a have "cuts = []" by (simp add: dict_get_def)
    with None r(1) show ?thesis by (simp add: cuts_entries_def dict_get_def)
  next
    case (Some v)
    with a have "v = JArr cuts" by (simp add: dict_get_def)
    with Some r(1) show ?thesis by (cases cuts) (simp_all add: cuts_entries_def dict_get_def)
  qed
  with a r4(1) levels
  have "extract_stats str_of production_data = Inr (if r = [] then None else Some r)"
    by (simp add: extract_stats_def)
  with r(2,3) r4(2)
  show "\<exists>r. extract_stats str_of production_data = Inr (if r = [] then None else Some r)
               \<and> distinct (map fst r)
               \<and> set (map fst r) = set (level_keys inp out)
                     \<union> (\<lambda>c. ''cuts_'' @ str_of (cut_name c)) ` set cuts"
    by blast
qed

lemma extract_stats_full_snapshot:
  "extract_stats str_atom full_snapshot = Inr (Some full_result)"
  by (simp add: extract_stats_def full_snapshot_def full_levels_def full_input_def
        full_output_def full_cuts_def full_result_def dict_get_def level_entries_def
        level_entry_def cuts_entries_def cut_entry_def str_int_def)

theorem extract_stats_absent_or_one_entry_each_witness:
  "extract_stats str_atom (JObj [(''status'', JInt 3), (''statistics'', JObj [])]) = Inr None
   \<and> extract_stats str_atom full_snapshot = Inr (Some full_result)
   \<and> full_statistics full_levels full_input full_output full_cuts
   \<and> distinct (map fst full_result)
   \<and> set (map fst full_result)
        = set (level_keys full_input full_output)
          \<union> (\<lambda>c. ''cuts_'' @ str_atom (cut_name c)) ` set full_cuts"
proof -
  have "\<exists>pd stats. JObj [(''status'', JInt 3), (''statistics'', JObj [])] = JObj pd
          \<and> dict_get pd ''statistics'' (JObj []) = JObj stats \<and> \<not> has_key stats ''levels''"
    by (simp add: dict_get_def has_key_def)
  with extract_stats_absent_or_one_entry_each
         [of "JObj [(''status'', JInt 3), (''statistics'', JObj [])]" str_atom]
  have none: "extract_stats str_atom (JObj [(''status'', JInt 3), (''statistics'', JObj [])]) = Inr None"
    by blast
  have full: "full_statistics full_levels full_input full_output full_cuts"
    by (simp add: full_statistics_def full_levels_def full_input_def full_output_def
          full_cuts_def dict_get_def pair_or_absent_def has_key_def)
  then have "\<exists>pd stats levels inp out cuts.
         full_snapshot = JObj pd \<and> dict_get pd ''statistics'' (JObj []) = JObj stats
         \<and> dict_get stats ''levels'' JNull = JObj levels
         \<and> dict_get stats ''cuts'' (JArr []) = JArr cuts
         \<and> full_statistics levels inp out cuts
         \<and> inp = full_input \<and> out = full_output \<and> cuts = full_cuts"
    by (simp add: full_snapshot_def dict_get_def)
  with extract_stats_absent_or_one_entry_each [of full_snapshot str_atom]
  obtain r where r: "extract_stats str_atom full_snapshot = Inr (if r = [] then None else Some r)"
      "distinct (map fst r)"
      "set (map fst r) = set (level_keys full_input full_output)
          \<union> (\<lambda>c. ''cuts_'' @ str_atom (cut_name c)) ` set full_cuts"
    by blast
  from r(1) have "r = full_result"
    by (cases "r = []") (simp_all add: extract_stats_full_snapshot)
  with r none full show ?thesis
    by (simp add: extract_stats_full_snapshot)
qed

section \<open>Download failures and the run\<close>












section \<open>Writing the index file\<close>

text \<open>
  C9, as stated, fails: the file is opened with mode \<^verbatim>\<open>"w"\<close> and written in place. With
  an index file that holds \<^verbatim>\<open>{}\<close> and a newline, and a run that dies when four
  characters of the new text have reached the file, the file holds an opening brace, a
  newline and two spaces: neither what it held before nor the new text.
\<close>

theorem persist_not_atomic_counterexample:
  "persist small_index (DiesAfter 4) (Some (''{}'' @ [CHR 0x0A])) = Some (''{'' @ [CHR 0x0A] @ ''  '')
   \<and> persist small_index (DiesAfter 4) (Some (''{}'' @ [CHR 0x0A])) \<noteq> Some (''{}'' @ [CHR 0x0A])
   \<and> persist small_index (DiesAfter 4) (Some (''{}'' @ [CHR 0x0A]))
        \<noteq> persist small_index Completes (Some (''{}'' @ [CHR 0x0A]))"
  by code_simp

text \<open>
  C9, amended. The index is written in place, with nothing that makes the write atomic.
  When the three lines run to their end the file holds the text of the merged index and a
  newline. When \<^verbatim>\<open>open\<close> raises, the file is as it was. When the run dies after
  \<^verbatim>\<open>open\<close>, the file holds the first characters of the new text that reached it and
  nothing of what it held before; this is not the complete new text unless all of it,
  the final newline included, had been written.
\<close>

theorem persist_rewrites_in_place:
  "persist index Completes on_disk = Some (json_dumps index @ [CHR 0x0A])
   \<and> persist index OpenRaises on_disk = on_disk
   \<and> (\<exists>rest. persist index (DiesAfter n) on_disk
                  = Some (take n (json_dumps index @ [CHR 0x0A]))
            \<and> take n (json_dumps index @ [CHR 0x0A]) @ rest = json_dumps index @ [CHR 0x0A]
            \<and> (n \<le> length (json_dumps index) \<longrightarrow> rest \<noteq> []))
   \<and> persist index (DiesAfter n) on_disk = persist index (DiesAfter n) None
   \<and> (n \<le> length (json_dumps index) \<longrightarrow>
         persist index (DiesAfter n) on_disk \<noteq> persist index Completes on_disk)"
proof (intro conjI)
  let ?text = "json_dumps index @ [CHR 0x0A]"
  show "persist index Completes on_disk = Some ?text"
    by (simp add: persist_def)
  show "persist index OpenRaises on_disk = on_disk"
    by (simp add: persist_def)
  have "take n ?text @ drop n ?text = ?text"
    by (rule append_take_drop_id)
  moreover have "n \<le> length (json_dumps index) \<longrightarrow> drop n ?text \<noteq> []"
    by simp
  ultimately show "\<exists>rest. persist index (DiesAfter n) on_disk = Some (take n ?text)
            \<and> take n ?text @ rest = ?text
            \<and> (n \<le> length (json_dumps index) \<longrightarrow> rest \<noteq> [])"
    by (intro exI [of _ "drop n ?text"]) (simp add: persist_def)
  show "persist index (DiesAfter n) on_disk = persist index (DiesAfter n) None"
    by (simp add: persist_def)
  show "n \<le> length (json_dumps index) \<longrightarrow>
         persist index (DiesAfter n) on_disk \<noteq> persist index Completes on_disk"
  proof
    assume "n \<le> length (json_dumps index)"
    then have "length (take n ?text) < length ?text"
      by simp
    then have "take n ?text \<noteq> ?text"
      by (metis less_irrefl)
    then show "persist index (DiesAfter n) on_disk \<noteq> persist index Completes on_disk"
      by (simp add: persist_def)
  qed
qed

lemma json_dumps_small_index:
  "json_dumps small_index
     = ''{'' @ [CHR 0x0A] @ ''  '' @ [CHR 0x22] @ ''audio/optimized/a.mp3'' @ [CHR 0x22] @ '': {''
       @ [CHR 0x0A] @ ''    '' @ [CHR 0x22] @ ''added'' @ [CHR 0x22] @ '': ''
       @ [CHR 0x22] @ ''2026-01-05'' @ [CHR 0x22] @ [CHR 0x0A] @ ''  }'' @ [CHR 0x0A] @ ''}''"
  by code_simp

theorem persist_rewrites_in_place_witness:
  "persist small_index (DiesAfter 0) (Some (''{}'' @ [CHR 0x0A])) = Some []
   \<and> persist small_index (DiesAfter 0) (Some (''{}'' @ [CHR 0x0A]))
        \<noteq> persist small_index Completes (Some (''{}'' @ [CHR 0x0A]))
   \<and> persist small_index OpenRaises (Some (''{}'' @ [CHR 0x0A])) = Some (''{}'' @ [CHR 0x0A])
   \<and> persist small_index Completes (Some (''{}'' @ [CHR 0x0A]))
        = Some (json_dumps small_index @ [CHR 0x0A])"
proof -
  have "(0::nat) \<le> length (json_dumps small_index)"
    by simp
  with persist_rewrites_in_place [of small_index "Some (''{}'' @ [CHR 0x0A])" 0]
  show ?thesis by simp
qed

end
